theory Spec2Isabelle
  imports Complex_Main "HOL-Library.Word"
begin

section \<open>JavaScript strings and arrays\<close>

text \<open>
  A JavaScript string is a sequence of UTF-16 code units: \<open>length\<close>, \<open>slice\<close>,
  \<open>includes\<close>, \<open>startsWith\<close> and \<open>indexOf\<close> all count and compare code units, so a
  character outside the Basic Multilingual Plane is two elements (a high surrogate
  followed by a low surrogate). \<open>js\<close> writes an ASCII literal as code units.
\<close>

type_synonym jsstring = "16 word list"

definition js :: "string \<Rightarrow> jsstring" where
  "js s = map of_char s"

text \<open>
  \<open>xs.slice(0, end)\<close> for arrays and strings alike: a negative \<open>end\<close> counts from the
  end of the sequence, and the result is clamped to the sequence.
\<close>

definition slice0 :: "'a list \<Rightarrow> int \<Rightarrow> 'a list" where
  "slice0 xs e =
     take (nat (if e < 0 then max (int (length xs) + e) 0
                else min e (int (length xs)))) xs"

text \<open>
  A finite JavaScript number used as an index is truncated towards zero
  (\<open>ToIntegerOrInfinity\<close>): \<open>xs.slice(0, 1.5)\<close> is \<open>xs.slice(0, 1)\<close>.
\<close>

definition toIntegerOrInfinity :: "real \<Rightarrow> int" where
  "toIntegerOrInfinity x = (if x < 0 then \<lceil>x\<rceil> else \<lfloor>x\<rfloor>)"

text \<open>\<open>s.startsWith(p)\<close>, \<open>s.includes(w)\<close> and \<open>s.indexOf(c)\<close> (\<open>-1\<close> when absent).\<close>

fun startsWith :: "'a list \<Rightarrow> 'a list \<Rightarrow> bool" where
  "startsWith s [] = True"
| "startsWith [] (p # ps) = False"
| "startsWith (c # cs) (p # ps) = (c = p \<and> startsWith cs ps)"

fun jsIncludes :: "'a list \<Rightarrow> 'a list \<Rightarrow> bool" where
  "jsIncludes [] w = (w = [])"
| "jsIncludes (c # cs) w = (startsWith (c # cs) w \<or> jsIncludes cs w)"

fun indexOf :: "'a list \<Rightarrow> 'a \<Rightarrow> int" where
  "indexOf [] c = - 1"
| "indexOf (x # xs) c =
     (if x = c then 0
      else (let i = indexOf xs c in if i = - 1 then - 1 else i + 1))"

text \<open>
  \<open>trim\<close> and \<open>trimEnd\<close> remove the code units of ECMAScript's WhiteSpace and
  LineTerminator productions.
\<close>

definition isWhiteSpace :: "16 word \<Rightarrow> bool" where
  "isWhiteSpace c \<longleftrightarrow>
     c \<in> {0x09, 0x0A, 0x0B, 0x0C, 0x0D, 0x20, 0xA0, 0x1680, 0x2028, 0x2029,
          0x202F, 0x205F, 0x3000, 0xFEFF}
     \<or> (0x2000 \<le> c \<and> c \<le> 0x200A)"

definition trimStart :: "jsstring \<Rightarrow> jsstring" where
  "trimStart s = dropWhile isWhiteSpace s"

definition trimEnd :: "jsstring \<Rightarrow> jsstring" where
  "trimEnd s = rev (dropWhile isWhiteSpace (rev s))"

definition trim :: "jsstring \<Rightarrow> jsstring" where
  "trim s = trimEnd (trimStart s)"

text \<open>
  \<open>toLowerCase\<close>: the upper-case letters of the Basic Latin and Latin-1 blocks, and
  the code units above \<open>0xFF\<close> whose lower case lies below \<open>0x100\<close> (U+0130, which
  becomes \<open>i\<close> followed by U+0307, U+0178, U+1E9E, U+212A, the Kelvin sign, which
  becomes \<open>k\<close>, and U+212B). Every other code unit is left as it is: JavaScript maps
  the remaining cased letters to code units above \<open>0xFF\<close>, so for them the model and
  the program agree on every code unit below \<open>0x100\<close> of the result, which is all that
  a search for an ASCII keyword looks at.
\<close>

definition lowerUnit :: "16 word \<Rightarrow> 16 word list" where
  "lowerUnit c =
     (if (0x41 \<le> c \<and> c \<le> 0x5A) \<or> (0xC0 \<le> c \<and> c \<le> 0xDE \<and> c \<noteq> 0xD7)
      then [c + 0x20]
      else if c = 0x130 then [0x69, 0x307]
      else if c = 0x178 then [0xFF]
      else if c = 0x1E9E then [0xDF]
      else if c = 0x212A then [0x6B]
      else if c = 0x212B then [0xE5]
      else [c])"

definition toLowerCase :: "jsstring \<Rightarrow> jsstring" where
  "toLowerCase s = concat (map lowerUnit s)"





section \<open>Data model\<close>

text \<open>
  \<open>RetrievedChunk\<close> of the core package: a chunk with its metadata and the similarity
  the store computed for it. The similarity is a double in the program; selection and
  evaluation never inspect it, it is only carried along.
\<close>

datatype sourceType = Markdown | Text | Code

record chunkMetadata =
  collection :: jsstring
  sourcePath :: jsstring
  sourceType :: sourceType
  sectionPath :: "jsstring option"
  contentHash :: jsstring

record chunk =
  chunkId :: jsstring
  chunkText :: jsstring
  metadata :: chunkMetadata

record retrievedChunk =
  chunk :: chunk
  similarity :: real

text \<open>
  \<open>getArgNumber\<close> accepts any finite number for a numeric command-line option, a
  fraction or a negative number included, so the options are reals. They are only
  compared with lengths and counts, multiplied by 4 and truncated to an index.
  \<open>cliArgs\<close> holds the options both scripts read; \<open>selectOpts\<close> is the options object
  handed to selection.
\<close>

record cliArgs =
  maxChunks :: real
  maxPerFile :: real
  minChars :: real
  dropStatus :: bool

record selectOpts = cliArgs +
  priorityPrefixes :: "jsstring list"


section \<open>Rendering helpers (scripts/ask)\<close>

definition formatSource :: "retrievedChunk \<Rightarrow> jsstring" where
  "formatSource r =
     (let md = metadata (chunk r);
          sect = (case sectionPath md of
                       None \<Rightarrow> []
                     | Some s \<Rightarrow> if s = [] then [] else js ''#'' @ s)
      in sourcePath md @ sect)"



section \<open>Context selection\<close>

definition isPrioritySource :: "jsstring \<Rightarrow> jsstring list \<Rightarrow> bool" where
  "isPrioritySource srcPath prefs = list_ex (\<lambda>p. startsWith srcPath p) prefs"

definition isLowSignalChunk :: "retrievedChunk \<Rightarrow> 'a selectOpts_scheme \<Rightarrow> bool" where
  "isLowSignalChunk r opts =
     (let md = metadata (chunk r) in
      if isPrioritySource (sourcePath md) (priorityPrefixes opts) then False
      else if real (length (trim (chunkText (chunk r)))) < minChars opts then True
      else if dropStatus opts \<and>
              jsIncludes (toLowerCase (case sectionPath md of None \<Rightarrow> [] | Some s \<Rightarrow> s))
                       (js ''status'')
           then True
      else False)"

definition sectionKey :: "retrievedChunk \<Rightarrow> jsstring" where
  "sectionKey r = (case sectionPath (metadata (chunk r)) of None \<Rightarrow> [] | Some s \<Rightarrow> s)"

definition dedupKey :: "retrievedChunk \<Rightarrow> jsstring" where
  "dedupKey r = sourcePath (metadata (chunk r)) @ js ''::'' @ sectionKey r"

text \<open>The items of a list that come from a given source path.\<close>

definition fromSource :: "jsstring \<Rightarrow> retrievedChunk list \<Rightarrow> retrievedChunk list" where
  "fromSource f xs = filter (\<lambda>r. sourcePath (metadata (chunk r)) = f) xs"

text \<open>
  The loop of \<open>selectForContext\<close> (scripts/eval): the state is the per-file counter,
  the set of section keys seen and the list selected so far; \<open>break\<close> returns the
  selection.
\<close>

fun selectLoop ::
  "'a selectOpts_scheme \<Rightarrow> retrievedChunk list \<Rightarrow> (jsstring \<rightharpoonup> nat) \<Rightarrow> jsstring set
     \<Rightarrow> retrievedChunk list \<Rightarrow> retrievedChunk list" where
  "selectLoop opts [] perFileCount seen selected = selected"
| "selectLoop opts (r # rs) perFileCount seen selected =
     (if isLowSignalChunk r opts then selectLoop opts rs perFileCount seen selected
      else
        let file = sourcePath (metadata (chunk r)) in
        if dedupKey r \<in> seen then selectLoop opts rs perFileCount seen selected
        else
          let seen' = insert (dedupKey r) seen;
              count = (case perFileCount file of None \<Rightarrow> 0 | Some n \<Rightarrow> n) in
          if real count \<ge> maxPerFile opts then selectLoop opts rs perFileCount seen' selected
          else
            let selected' = selected @ [r];
                perFileCount' = perFileCount(file \<mapsto> count + 1) in
            if real (length selected') \<ge> maxChunks opts then selected'
            else selectLoop opts rs perFileCount' seen' selected')"

definition selectForContext ::
  "retrievedChunk list \<Rightarrow> 'a selectOpts_scheme \<Rightarrow> retrievedChunk list" where
  "selectForContext candidates opts = selectLoop opts candidates Map.empty {} []"

text \<open>
  The loop of \<open>assembleContextFromCandidates\<close> (scripts/ask): as above, except that a
  priority source neither reads nor updates the per-file counter. The function also
  renders the context string from the selection; only the selection is modelled.
\<close>

fun assembleLoop ::
  "'a selectOpts_scheme \<Rightarrow> retrievedChunk list \<Rightarrow> (jsstring \<rightharpoonup> nat) \<Rightarrow> jsstring set
     \<Rightarrow> retrievedChunk list \<Rightarrow> retrievedChunk list" where
  "assembleLoop opts [] perFileCount seen selected = selected"
| "assembleLoop opts (r # rs) perFileCount seen selected =
     (if isLowSignalChunk r opts then assembleLoop opts rs perFileCount seen selected
      else
        let file = sourcePath (metadata (chunk r));
            isPriority = isPrioritySource file (priorityPrefixes opts) in
        if dedupKey r \<in> seen then assembleLoop opts rs perFileCount seen selected
        else
          let seen' = insert (dedupKey r) seen;
              count = (case perFileCount file of None \<Rightarrow> 0 | Some n \<Rightarrow> n) in
          if \<not> isPriority \<and> real count \<ge> maxPerFile opts
          then assembleLoop opts rs perFileCount seen' selected
          else
            let perFileCount' = (if \<not> isPriority then perFileCount(file \<mapsto> count + 1)
                                 else perFileCount);
                selected' = selected @ [r] in
            if real (length selected') \<ge> maxChunks opts then selected'
            else assembleLoop opts rs perFileCount' seen' selected')"

definition assembleContextFromCandidates ::
  "retrievedChunk list \<Rightarrow> 'a selectOpts_scheme \<Rightarrow> retrievedChunk list" where
  "assembleContextFromCandidates candidates opts = assembleLoop opts candidates Map.empty {} []"

text \<open>
  The fallback ladder, as both scripts write it after the primary pass: a relaxed pass
  when the primary pass is empty, the raw head of the pool when that is empty too.
  \<open>primaryOpts\<close> and \<open>relaxedOpts\<close> are the two options objects the scripts build,
  \<open>selectedFinal\<close> is the ladder of scripts/eval, \<open>assembled\<close> the one of scripts/ask.
\<close>

definition primaryOpts :: "'a cliArgs_scheme \<Rightarrow> jsstring list \<Rightarrow> selectOpts" where
  "primaryOpts args planPrefixes =
     \<lparr>maxChunks = maxChunks args, maxPerFile = maxPerFile args,
      minChars = minChars args, dropStatus = dropStatus args,
      priorityPrefixes = planPrefixes\<rparr>"

definition relaxedOpts :: "'a cliArgs_scheme \<Rightarrow> jsstring list \<Rightarrow> selectOpts" where
  "relaxedOpts args planPrefixes =
     \<lparr>maxChunks = maxChunks args, maxPerFile = maxPerFile args,
      minChars = min (minChars args) 60, dropStatus = False,
      priorityPrefixes = planPrefixes\<rparr>"

definition selectedFinal ::
  "'a cliArgs_scheme \<Rightarrow> jsstring list \<Rightarrow> retrievedChunk list \<Rightarrow> retrievedChunk list" where
  "selectedFinal args planPrefixes candidatePool =
     (let s1 = selectForContext candidatePool (primaryOpts args planPrefixes)
      in if length s1 = 0
         then (let s2 = selectForContext candidatePool (relaxedOpts args planPrefixes)
               in if length s2 = 0 then slice0 candidatePool (toIntegerOrInfinity (maxChunks args))
                  else s2)
         else s1)"

definition assembled ::
  "'a cliArgs_scheme \<Rightarrow> jsstring list \<Rightarrow> retrievedChunk list \<Rightarrow> retrievedChunk list" where
  "assembled args planPrefixes candidatesForSelection =
     (let a1 = assembleContextFromCandidates candidatesForSelection
                 (primaryOpts args planPrefixes)
      in if length a1 = 0
         then (let a2 = assembleContextFromCandidates candidatesForSelection
                          (relaxedOpts args planPrefixes)
               in if length a2 = 0
                  then slice0 candidatesForSelection (toIntegerOrInfinity (maxChunks args))
                  else a2)
         else a1)"

text \<open>
  Example data for the concrete evaluations below: a markdown chunk of collection
  \<open>docs\<close> with the given id, source path, section path and text.
\<close>

definition mkChunk :: "string \<Rightarrow> string \<Rightarrow> string option \<Rightarrow> jsstring \<Rightarrow> retrievedChunk" where
  "mkChunk cid path sect txt =
     \<lparr>chunk = \<lparr>chunkId = js cid, chunkText = txt,
                metadata = \<lparr>collection = js ''docs'', sourcePath = js path,
                             sourceType = Markdown, sectionPath = map_option js sect,
                             contentHash = []\<rparr>\<rparr>,
      similarity = 0\<rparr>"


section \<open>Cosine similarity (vector store and scripts/ask)\<close>

text \<open>
  The vectors hold JavaScript numbers, IEEE 754 binary64 values. A \<open>double\<close> is a
  finite value (a rational), an infinity or NaN; the two zeros are one value, which the
  comparison \<open>=== 0\<close> does not tell apart either. Every operation returns the exact
  result rounded to the nearest representable value, ties to the even significand:
  53 significant bits, exponents from \<open>-1022\<close> (below which the spacing stays that of
  the subnormal numbers) to \<open>1023\<close> (above which the result is an infinity).
\<close>

datatype double = Finite rat | PosInf | NegInf | NaN

definition pow2 :: "int \<Rightarrow> rat" where
  "pow2 e = (if 0 \<le> e then 2 ^ nat e else 1 / 2 ^ nat (- e))"

function bitLength :: "int \<Rightarrow> int" where
  "bitLength n = (if n \<le> 0 then 0 else 1 + bitLength (n div 2))"
  by pat_completeness auto
termination
  by (relation "measure nat") auto

declare bitLength.simps [simp del]

text \<open>The exponent of a positive rational \<open>x\<close>: the \<open>e\<close> with \<open>2\<^sup>e \<le> x < 2\<^sup>e\<^sup>+\<^sup>1\<close>.\<close>

definition floorLog2 :: "rat \<Rightarrow> int" where
  "floorLog2 x =
     (let (p, d) = quotient_of x;
          e0 = bitLength p - bitLength d
      in if pow2 e0 \<le> x then e0 else e0 - 1)"

definition roundHalfEven :: "rat \<Rightarrow> int" where
  "roundHalfEven r =
     (let f = \<lfloor>r\<rfloor>; d = r - of_int f
      in if d < 1 / 2 then f else if 1 / 2 < d then f + 1
         else if even f then f else f + 1)"

definition round64 :: "rat \<Rightarrow> double" where
  "round64 x =
     (if x = 0 then Finite 0
      else
        let a = \<bar>x\<bar>;
            e = max (floorLog2 a) (- 1022);
            quantum = pow2 (e - 52);
            m = roundHalfEven (a / quantum);
            y = of_int m * quantum
        in if 1023 < e \<or> (e = 1023 \<and> 2 ^ 53 \<le> m) then (if 0 < x then PosInf else NegInf)
           else Finite (if 0 < x then y else - y))"

text \<open>
  The integer square root, and the square root of a positive rational rounded to the
  nearest double: \<open>t\<close> is the square of the exact root measured in units of the
  spacing, so the rounding compares \<open>t\<close> with the square of the midpoint.
\<close>

function isqrt :: "int \<Rightarrow> int" where
  "isqrt n =
     (if n \<le> 0 then 0
      else let r = 2 * isqrt (n div 4) in if (r + 1) * (r + 1) \<le> n then r + 1 else r)"
  by pat_completeness auto
termination
  by (relation "measure nat") auto

declare isqrt.simps [simp del]

definition roundSqrt :: "rat \<Rightarrow> double" where
  "roundSqrt x =
     (let e = max (floorLog2 x div 2) (- 1022);
          quantum = pow2 (e - 52);
          t = x / (quantum * quantum);
          f = isqrt \<lfloor>t\<rfloor>;
          half = (of_int f + 1 / 2) * (of_int f + 1 / 2);
          m = (if t < half then f else if half < t then f + 1
               else if even f then f else f + 1)
      in Finite (of_int m * quantum))"

definition isNeg :: "double \<Rightarrow> bool" where
  "isNeg a = (case a of Finite x \<Rightarrow> x < 0 | NegInf \<Rightarrow> True | _ \<Rightarrow> False)"

definition fadd :: "double \<Rightarrow> double \<Rightarrow> double" where
  "fadd a b =
     (case (a, b) of
        (Finite x, Finite y) \<Rightarrow> round64 (x + y)
      | _ \<Rightarrow> if a = NaN \<or> b = NaN \<or> (a = PosInf \<and> b = NegInf) \<or> (a = NegInf \<and> b = PosInf)
             then NaN
             else if a = PosInf \<or> b = PosInf then PosInf else NegInf)"

definition fmul :: "double \<Rightarrow> double \<Rightarrow> double" where
  "fmul a b =
     (case (a, b) of
        (Finite x, Finite y) \<Rightarrow> round64 (x * y)
      | _ \<Rightarrow> if a = NaN \<or> b = NaN \<or> a = Finite 0 \<or> b = Finite 0 then NaN
             else if isNeg a \<noteq> isNeg b then NegInf else PosInf)"

definition fdiv :: "double \<Rightarrow> double \<Rightarrow> double" where
  "fdiv a b =
     (case (a, b) of
        (Finite x, Finite y) \<Rightarrow>
          if y = 0 then (if x = 0 then NaN else if x < 0 then NegInf else PosInf)
          else round64 (x / y)
      | (Finite x, _) \<Rightarrow> if b = NaN then NaN else Finite 0
      | (_, Finite y) \<Rightarrow> if a = NaN then NaN
                         else if isNeg a \<noteq> (y < 0) then NegInf else PosInf
      | _ \<Rightarrow> NaN)"

definition fsqrt :: "double \<Rightarrow> double" where
  "fsqrt a =
     (case a of
        Finite x \<Rightarrow> if x < 0 then NaN else if x = 0 then Finite 0 else roundSqrt x
      | PosInf \<Rightarrow> PosInf
      | _ \<Rightarrow> NaN)"

text \<open>
  The loop shared by \<open>cosineSimilarity\<close> (vector store) and \<open>cosine\<close> (scripts/ask),
  which are the same text: it runs over the first \<open>min (a.length, b.length)\<close> entries
  and accumulates the dot product and the two squared norms. The entries are numbers,
  so \<open>a[i] ?? 0\<close> is \<open>a[i]\<close>. The functions return 0 when a squared norm is 0 and
  the quotient otherwise; the divisor is a product of square roots, never a negative
  zero, so a quotient by zero takes the sign of the dividend.
\<close>

fun cosineLoop ::
  "double list \<Rightarrow> double list \<Rightarrow> double \<times> double \<times> double \<Rightarrow> double \<times> double \<times> double" where
  "cosineLoop (av # as) (bv # bs) (dot, na, nb) =
     cosineLoop as bs (fadd dot (fmul av bv), fadd na (fmul av av), fadd nb (fmul bv bv))"
| "cosineLoop [] bs acc = acc"
| "cosineLoop as [] acc = acc"

definition cosineSimilarity :: "double list \<Rightarrow> double list \<Rightarrow> double" where
  "cosineSimilarity a b =
     (let (dot, na, nb) = cosineLoop a b (Finite 0, Finite 0, Finite 0)
      in if na = Finite 0 \<or> nb = Finite 0 then Finite 0
         else fdiv dot (fmul (fsqrt na) (fsqrt nb)))"

definition cosine :: "double list \<Rightarrow> double list \<Rightarrow> double" where
  "cosine a b =
     (let (dot, na, nb) = cosineLoop a b (Finite 0, Finite 0, Finite 0)
      in if na = Finite 0 \<or> nb = Finite 0 then Finite 0
         else fdiv dot (fmul (fsqrt na) (fsqrt nb)))"


section \<open>Intent routing\<close>

datatype intent = Tests | Db | Migrations | Openapi | Auth | General

record routePlan =
  prefixes :: "jsstring list"
  intent :: intent

definition hasAny :: "jsstring \<Rightarrow> jsstring list \<Rightarrow> bool" where
  "hasAny q ws = list_ex (\<lambda>w. jsIncludes q w) ws"

text \<open>The keyword tables of \<open>inferRoutePlan\<close> in scripts/eval.\<close>

definition evalTestsWords :: "jsstring list" where
  "evalTestsWords =
     map js [''integration test'', ''integration tests'', ''vitest'', ''test:db'', ''pnpm test'']"

definition evalDbWords :: "jsstring list" where
  "evalDbWords =
     map js [''database'', ''postgres'', ''postgresql'', ''pg pool'', ''connection'',
             ''access the database'']"

definition authWords :: "jsstring list" where
  "authWords = map js [''authentication'', ''auth'', ''x-user-id'', ''jwt'', ''oauth'', ''cognito'']"

definition openApiWords :: "jsstring list" where
  "openApiWords = map js [''openapi'', ''swagger'', ''typebox'']"

definition evalMigrationsWords :: "jsstring list" where
  "evalMigrationsWords =
     map js [''migration'', ''migrations'', ''database migrations'',
             ''how are database migrations handled'', ''sql-first'']"

definition inferRoutePlan_eval :: "jsstring \<Rightarrow> routePlan" where
  "inferRoutePlan_eval query =
     (let q = toLowerCase query;
          isTests = hasAny q evalTestsWords;
          isDb = hasAny q evalDbWords;
          isAuth = hasAny q authWords;
          isOpenApi = hasAny q openApiWords;
          isMigrations = hasAny q evalMigrationsWords
      in if isTests then \<lparr>prefixes = [js ''apps/api/README.md''], intent = Tests\<rparr>
         else if isMigrations
           then \<lparr>prefixes = [js ''apps/docs/app/adr/'', js ''apps/docs/README.md'', js ''README.md''],
                 intent = Migrations\<rparr>
         else if isOpenApi
           then \<lparr>prefixes = [js ''apps/api/README.md'',
                             js ''apps/docs/app/adr/0002-fastify-typebox-openapi.md''],
                 intent = Openapi\<rparr>
         else if isAuth
           then \<lparr>prefixes = [js ''apps/api/README.md'', js ''README.md''], intent = Auth\<rparr>
         else if isDb
           then \<lparr>prefixes = [js ''README.md'', js ''apps/api/README.md''], intent = Db\<rparr>
         else \<lparr>prefixes = [], intent = General\<rparr>)"

text \<open>The keyword tables of \<open>inferRoutePlan\<close> in scripts/ask (auth and openapi are shared).\<close>

definition askTestsWords :: "jsstring list" where
  "askTestsWords =
     map js [''integration test'', ''integration tests'', ''vitest'', ''test:db'', ''pnpm test'',
             ''run the integration tests'', ''run integration tests'', ''run tests'',
             ''how do i run the tests'', ''how do i run integration tests'',
             ''how do i run the integration test'']"

definition askDbWords :: "jsstring list" where
  "askDbWords =
     map js [''database'', ''postgres'', ''postgresql'', ''pg pool'', ''pool'', ''connection'',
             ''connect'', ''access the database'', ''db access'']"

definition askMigrationsWords :: "jsstring list" where
  "askMigrationsWords =
     map js [''migration'', ''migrations'', ''migrate'', ''migrating'', ''database migrations'',
             ''migrations handled'', ''how are database migrations handled'', ''schema changes'',
             ''schema change'', ''ddl'', ''sql-first'', ''sql files'', ''apply migrations'']"

definition inferRoutePlan_ask :: "jsstring \<Rightarrow> routePlan" where
  "inferRoutePlan_ask query =
     (let q = toLowerCase query;
          isTests = hasAny q askTestsWords;
          isDb = hasAny q askDbWords;
          isAuth = hasAny q authWords;
          isOpenApi = hasAny q openApiWords;
          isMigrations = hasAny q askMigrationsWords
      in if isTests then \<lparr>prefixes = [js ''apps/api/README.md''], intent = Tests\<rparr>
         else if isMigrations
           then \<lparr>prefixes = [js ''apps/docs/app/adr/'', js ''README.md''], intent = Migrations\<rparr>
         else if isOpenApi
           then \<lparr>prefixes = [js ''apps/api/README.md'',
                             js ''apps/docs/app/adr/0002-fastify-typebox-openapi.md''],
                 intent = Openapi\<rparr>
         else if isAuth
           then \<lparr>prefixes = [js ''apps/api/README.md'', js ''README.md''], intent = Auth\<rparr>
         else if isDb
           then \<lparr>prefixes = [js ''README.md'', js ''apps/api/README.md''], intent = Db\<rparr>
         else \<lparr>prefixes = [], intent = General\<rparr>)"


section \<open>Evaluation (scripts/eval)\<close>

subsection \<open>Matching helpers\<close>

definition normalizeSource :: "retrievedChunk \<Rightarrow> jsstring" where
  "normalizeSource r =
     (let md = metadata (chunk r);
          sect = (case sectionPath md of
                    None \<Rightarrow> []
                  | Some s \<Rightarrow> if s = [] then [] else js ''#'' @ s)
      in sourcePath md @ sect)"

definition toPathOnly :: "jsstring \<Rightarrow> jsstring" where
  "toPathOnly s = (let idx = indexOf s 0x23 in if idx = - 1 then s else slice0 s idx)"

definition sourceMatchesNeedle :: "jsstring \<Rightarrow> jsstring \<Rightarrow> bool" where
  "sourceMatchesNeedle source needle =
     (let sPath = toPathOnly source; nPath = toPathOnly needle
      in if sPath = nPath then True
         else if startsWith sPath nPath then True
         else if jsIncludes source needle then True
         else False)"

definition hitAtK :: "jsstring list \<Rightarrow> jsstring list \<Rightarrow> int \<Rightarrow> bool" where
  "hitAtK selectedSources mustContain k =
     (let topSources = slice0 selectedSources k
      in list_ex (\<lambda>needle. list_ex (\<lambda>s. sourceMatchesNeedle s needle) topSources) mustContain)"

subsection \<open>Routed retrieval\<close>

text \<open>
  The vector store is outside the model: \<open>search\<close> stands for \<open>store.search\<close> and takes
  the collections, the query vector, the fetch width and the optional source-path prefix
  of the filter. The rows it scores and sorts are outside the model; its scoring
  function is \<open>cosineSimilarity\<close> above.
\<close>

type_synonym store = "jsstring list \<Rightarrow> real list \<Rightarrow> real \<Rightarrow> jsstring option \<Rightarrow> retrievedChunk list"

fun pushDedup ::
  "real \<Rightarrow> retrievedChunk list \<Rightarrow> retrievedChunk list \<times> jsstring set
     \<Rightarrow> retrievedChunk list \<times> jsstring set" where
  "pushDedup topK [] (out, seen) = (out, seen)"
| "pushDedup topK (r # items) (out, seen) =
     (if chunkId (chunk r) \<in> seen then pushDedup topK items (out, seen)
      else
        let seen' = insert (chunkId (chunk r)) seen;
            out' = out @ [r] in
        if real (length out') \<ge> topK then (out', seen')
        else pushDedup topK items (out', seen'))"

text \<open>
  The routed-first loop over the plan's prefixes: \<open>Inl\<close> is the early \<open>return\<close> taken once
  \<open>topK\<close> items are collected, \<open>Inr\<close> the state handed on to the global backfill.
\<close>

fun routedFirst ::
  "(jsstring option \<Rightarrow> retrievedChunk list) \<Rightarrow> real \<Rightarrow> jsstring list
     \<Rightarrow> retrievedChunk list \<times> jsstring set
     \<Rightarrow> retrievedChunk list + retrievedChunk list \<times> jsstring set" where
  "routedFirst fetch topK [] st = Inr st"
| "routedFirst fetch topK (p # ps) st =
     (let st' = pushDedup topK (fetch (Some p)) st in
      if real (length (fst st')) \<ge> topK then Inl (fst st')
      else routedFirst fetch topK ps st')"

definition retrieveWithRouting ::
  "store \<Rightarrow> jsstring \<Rightarrow> jsstring \<Rightarrow> real list \<Rightarrow> real \<Rightarrow> routePlan \<times> retrievedChunk list" where
  "retrieveWithRouting search coll query queryVector topK =
     (let plan = inferRoutePlan_eval query;
          fetch = (\<lambda>filter. search [coll] queryVector (max topK 32) filter)
      in case routedFirst fetch topK (prefixes plan) ([], {}) of
           Inl out \<Rightarrow> (plan, out)
         | Inr st \<Rightarrow> (plan, slice0 (fst (pushDedup topK (fetch None) st))
                                    (toIntegerOrInfinity topK)))"

subsection \<open>Embedding (packages/embeddings)\<close>

text \<open>
  \<open>ollamaEmbedOne\<close> is the HTTP request to the embedding service: it throws when the
  request fails or the response carries no embedding. It is a parameter of the model; a
  thrown error is the \<open>Inl\<close> of the result.
\<close>

datatype error =
    OllamaError jsstring
  | InconsistentDimension nat nat
  | NoCases

fun embedEach :: "(jsstring \<Rightarrow> error + real list) \<Rightarrow> jsstring list \<Rightarrow> error + real list list" where
  "embedEach ollamaEmbedOne [] = Inr []"
| "embedEach ollamaEmbedOne (t # ts) =
     (case ollamaEmbedOne t of
        Inl e \<Rightarrow> Inl e
      | Inr v \<Rightarrow> (case embedEach ollamaEmbedOne ts of
                    Inl e \<Rightarrow> Inl e
                  | Inr vs \<Rightarrow> Inr (v # vs)))"

fun checkDimensions :: "nat \<Rightarrow> real list list \<Rightarrow> error option" where
  "checkDimensions d [] = None"
| "checkDimensions d (v # vs) =
     (if length v \<noteq> d then Some (InconsistentDimension d (length v))
      else checkDimensions d vs)"

definition embed :: "(jsstring \<Rightarrow> error + real list) \<Rightarrow> jsstring list \<Rightarrow> error + real list list" where
  "embed ollamaEmbedOne texts =
     (if length texts = 0 then Inr []
      else case embedEach ollamaEmbedOne texts of
             Inl e \<Rightarrow> Inl e
           | Inr vectors \<Rightarrow>
               (let d = (case vectors of [] \<Rightarrow> 0 | v # _ \<Rightarrow> length v)
                in case checkDimensions d vectors of
                     Some e \<Rightarrow> Inl e
                   | None \<Rightarrow> Inr vectors))"

subsection \<open>The main loop\<close>

record evalCase =
  caseId :: "jsstring option"
  q :: jsstring
  caseCollection :: jsstring
  mustContain :: "jsstring list"

record evalArgs = cliArgs +
  topK :: real

text \<open>
  What the loop writes to the console, as events: the error line of a case without an
  embedding, and the line of a processed case with its hit\<open>@\<close>3 verdict and best source.
  A case is named by its id, or by its running number when it has none. The dump printed
  for a miss under \<open>--debugMisses\<close> repeats values already in the state and is left out.
\<close>

datatype caseLabel = CaseId jsstring | CaseNumber nat

datatype logEvent =
    MissingEmbedding caseLabel
  | CaseLine caseLabel int bool jsstring jsstring

record evalState =
  total :: nat
  hits :: "int \<rightharpoonup> nat"
  events :: "logEvent list"

definition ks :: "'a cliArgs_scheme \<Rightarrow> int list" where
  "ks args = filter (\<lambda>x. real_of_int x \<le> maxChunks args) [1, 3, 5, 8]"

definition labelOf :: "evalCase \<Rightarrow> nat \<Rightarrow> caseLabel" where
  "labelOf c n = (case caseId c of Some i \<Rightarrow> CaseId i | None \<Rightarrow> CaseNumber n)"

definition countHits :: "jsstring list \<Rightarrow> jsstring list \<Rightarrow> int list \<Rightarrow> (int \<rightharpoonup> nat) \<Rightarrow> (int \<rightharpoonup> nat)" where
  "countHits sources must kList h =
     foldl (\<lambda>h k. if hitAtK sources must k
                  then h(k \<mapsto> (case h k of None \<Rightarrow> 0 | Some n \<Rightarrow> n) + 1)
                  else h) h kList"

text \<open>
  One iteration per case. An error thrown by \<open>embed\<close> is not caught anywhere in the
  script, so it ends the run: the loop returns it.
\<close>

fun evalLoop ::
  "(jsstring \<Rightarrow> error + real list) \<Rightarrow> store \<Rightarrow> 'a evalArgs_scheme \<Rightarrow> evalCase list \<Rightarrow> evalState
     \<Rightarrow> error + evalState" where
  "evalLoop ollamaEmbedOne search args [] st = Inr st"
| "evalLoop ollamaEmbedOne search args (c # cs) st =
     (let st1 = st\<lparr>total := total st + 1\<rparr> in
      case embed ollamaEmbedOne [q c] of
        Inl e \<Rightarrow> Inl e
      | Inr [] \<Rightarrow>
          evalLoop ollamaEmbedOne search args cs
            (st1\<lparr>events := events st1 @ [MissingEmbedding (labelOf c (total st1))]\<rparr>)
      | Inr (qVec # _) \<Rightarrow>
          (let (plan, retrieved) =
                 retrieveWithRouting search (caseCollection c) (q c) qVec (topK args);
               candidatePool = slice0 retrieved
                                 (toIntegerOrInfinity (max (topK args) (maxChunks args * 4)));
               sources = map normalizeSource (selectedFinal args (prefixes plan) candidatePool);
               hits' = countHits sources (mustContain c) (ks args) (hits st1);
               ok3 = hitAtK sources (mustContain c) 3;
               best = (case sources of [] \<Rightarrow> js ''(none)'' | s # _ \<Rightarrow> s)
           in evalLoop ollamaEmbedOne search args cs
                (st1\<lparr>hits := hits',
                     events := events st1 @ [CaseLine (labelOf c (total st1)) 3 ok3 best (q c)]\<rparr>)))"

text \<open>
  The whole script: it exits at once on an empty case file; otherwise it runs the loop
  and prints, for each \<open>k\<close> of \<open>ks\<close>, the hit count and the total (and their ratio as
  a percentage, which is not modelled).
\<close>

record evalReport =
  reportEvents :: "logEvent list"
  results :: "(int \<times> nat \<times> nat) list"

definition evalMain ::
  "(jsstring \<Rightarrow> error + real list) \<Rightarrow> store \<Rightarrow> 'a evalArgs_scheme \<Rightarrow> evalCase list
     \<Rightarrow> error + evalReport" where
  "evalMain ollamaEmbedOne search args cases =
     (if length cases = 0 then Inl NoCases
      else case evalLoop ollamaEmbedOne search args cases
                  \<lparr>total = 0, hits = map_of (map (\<lambda>k. (k, 0)) (ks args)), events = []\<rparr> of
             Inl e \<Rightarrow> Inl e
           | Inr st \<Rightarrow>
               Inr \<lparr>reportEvents = events st,
                    results = map (\<lambda>k. (k, (case hits st k of None \<Rightarrow> 0 | Some n \<Rightarrow> n), total st))
                                  (ks args)\<rparr>)"


section \<open>What a completed evaluation run reports, case by case\<close>

text \<open>
  The vector of a case, the sources the pipeline selects for it, and the line the
  loop logs for it as the \<open>n\<close>-th case: hit\<open>@\<close>3 of those sources, and the first of
  them. \<open>hitCount\<close> reads a counter of the hit table, 0 when it is absent.
\<close>

definition hitCount :: "(int \<rightharpoonup> nat) \<Rightarrow> int \<Rightarrow> nat" where
  "hitCount h k = (case h k of None \<Rightarrow> 0 | Some n \<Rightarrow> n)"

definition caseVector :: "(jsstring \<Rightarrow> error + real list) \<Rightarrow> evalCase \<Rightarrow> real list" where
  "caseVector ollamaEmbedOne c = (case ollamaEmbedOne (q c) of Inr v \<Rightarrow> v | Inl e \<Rightarrow> [])"

definition caseSources ::
  "(jsstring \<Rightarrow> error + real list) \<Rightarrow> store \<Rightarrow> 'a evalArgs_scheme \<Rightarrow> evalCase \<Rightarrow> jsstring list" where
  "caseSources ollamaEmbedOne search args c =
     (let (plan, retrieved) =
            retrieveWithRouting search (caseCollection c) (q c)
              (caseVector ollamaEmbedOne c) (topK args);
          candidatePool = slice0 retrieved
                            (toIntegerOrInfinity (max (topK args) (maxChunks args * 4)))
      in map normalizeSource (selectedFinal args (prefixes plan) candidatePool))"

definition caseLine ::
  "(jsstring \<Rightarrow> error + real list) \<Rightarrow> store \<Rightarrow> 'a evalArgs_scheme \<Rightarrow> nat \<Rightarrow> evalCase \<Rightarrow> logEvent" where
  "caseLine ollamaEmbedOne search args n c =
     (let sources = caseSources ollamaEmbedOne search args c
      in CaseLine (labelOf c n) 3 (hitAtK sources (mustContain c) 3)
           (case sources of [] \<Rightarrow> js ''(none)'' | s # _ \<Rightarrow> s) (q c))"


section \<open>The precedence of intents, as specified\<close>

text \<open>
  The specification orders the intents: tests, migrations, openapi, auth, db, general.
  An intent matches a query when the lowered query contains one of its keywords;
  \<open>general\<close> matches every query. The router is to return the first intent of the
  order that matches.
\<close>

definition precedence :: "intent list" where
  "precedence = [Tests, Migrations, Openapi, Auth, Db, General]"

definition matches_eval :: "jsstring \<Rightarrow> intent \<Rightarrow> bool" where
  "matches_eval query i =
     (case i of
        Tests \<Rightarrow> hasAny (toLowerCase query) evalTestsWords
      | Migrations \<Rightarrow> hasAny (toLowerCase query) evalMigrationsWords
      | Openapi \<Rightarrow> hasAny (toLowerCase query) openApiWords
      | Auth \<Rightarrow> hasAny (toLowerCase query) authWords
      | Db \<Rightarrow> hasAny (toLowerCase query) evalDbWords
      | General \<Rightarrow> True)"

definition matches_ask :: "jsstring \<Rightarrow> intent \<Rightarrow> bool" where
  "matches_ask query i =
     (case i of
        Tests \<Rightarrow> hasAny (toLowerCase query) askTestsWords
      | Migrations \<Rightarrow> hasAny (toLowerCase query) askMigrationsWords
      | Openapi \<Rightarrow> hasAny (toLowerCase query) openApiWords
      | Auth \<Rightarrow> hasAny (toLowerCase query) authWords
      | Db \<Rightarrow> hasAny (toLowerCase query) askDbWords
      | General \<Rightarrow> True)"


section \<open>Defaults and example data\<close>

text \<open>
  The values the scripts use when an option is not given on the command line, and the
  data of the concrete runs below: an embedding service that fails for the query
  \<open>q1\<close>, a store without rows, and two evaluation cases.
\<close>

definition evalDefaults :: evalArgs where
  "evalDefaults = \<lparr>maxChunks = 8, maxPerFile = 2, minChars = 120, dropStatus = True, topK = 16\<rparr>"

definition askDefaults :: cliArgs where
  "askDefaults = \<lparr>maxChunks = 6, maxPerFile = 2, minChars = 120, dropStatus = True\<rparr>"

definition failingEmbedder :: "jsstring \<Rightarrow> error + real list" where
  "failingEmbedder t =
     (if t = js ''q1'' then Inl (OllamaError (js ''503 Service Unavailable''))
      else Inr [1, 0])"

definition emptyStore :: store where
  "emptyStore collections queryVector k pathPrefix = []"

definition case1 :: evalCase where
  "case1 = \<lparr>caseId = Some (js ''a''), q = js ''q1'', caseCollection = js ''docs'',
             mustContain = [js ''README.md'']\<rparr>"

definition case2 :: evalCase where
  "case2 = \<lparr>caseId = None, q = js ''q2'', caseCollection = js ''docs'',
             mustContain = [js ''README.md'']\<rparr>"

lemmas eval_simps = selectedFinal_def assembled_def selectForContext_def
  assembleContextFromCandidates_def primaryOpts_def relaxedOpts_def isLowSignalChunk_def
  isPrioritySource_def dedupKey_def sectionKey_def mkChunk_def js_def trim_def trimEnd_def
  trimStart_def isWhiteSpace_def toLowerCase_def lowerUnit_def slice0_def Let_def
  evalDefaults_def askDefaults_def

lemmas str_simps = js_def toLowerCase_def lowerUnit_def hasAny_def

section \<open>Truncation of rendered text\<close>



lemma slice0_take: "0 \<le> e \<Longrightarrow> slice0 xs e = take (nat e) xs"
  by (simp add: slice0_def min_def)




section \<open>Context selection: the loops\<close>

lemma slice0_length: "0 \<le> e \<Longrightarrow> int (length (slice0 xs e)) \<le> e"
  by (auto simp: slice0_def min_def)

lemma toIntegerOrInfinity_nonneg: "0 \<le> x \<Longrightarrow> toIntegerOrInfinity x = \<lfloor>x\<rfloor>"
  by (simp add: toIntegerOrInfinity_def)

lemma slice0_number:
  "0 \<le> x \<Longrightarrow> slice0 xs (toIntegerOrInfinity x) = take (nat \<lfloor>x\<rfloor>) xs"
  by (simp add: toIntegerOrInfinity_nonneg slice0_take)

text \<open>
  Both loops stop as soon as the length of the selection reaches \<open>maxChunks\<close>: the
  item that takes it there is the last one, so the length stays below \<open>maxChunks + 1\<close>.
\<close>

lemma selectLoop_length:
  "real (length sel) < maxChunks opts \<Longrightarrow>
   real (length (selectLoop opts rs cnt seen sel)) < maxChunks opts + 1"
  by (induction rs arbitrary: cnt seen sel) (auto simp: Let_def)

lemma assembleLoop_length:
  "real (length sel) < maxChunks opts \<Longrightarrow>
   real (length (assembleLoop opts rs cnt seen sel)) < maxChunks opts + 1"
  by (induction rs arbitrary: cnt seen sel) (auto simp: Let_def)

text \<open>
  Section-level deduplication: the keys of the selection are always among the keys
  seen, so a key enters the selection at most once.
\<close>

lemma selectLoop_distinct:
  "dedupKey ` set sel \<subseteq> seen \<Longrightarrow> distinct (map dedupKey sel) \<Longrightarrow>
   distinct (map dedupKey (selectLoop opts rs cnt seen sel))"
proof (induction rs arbitrary: cnt seen sel)
  case Nil
  then show ?case by simp
next
  case (Cons r rs)
  have sub: "dedupKey ` set sel \<subseteq> insert (dedupKey r) seen"
    using Cons.prems(1) by auto
  have same: "distinct (map dedupKey (selectLoop opts rs c seen sel))" for c
    using Cons.prems by (rule Cons.IH)
  have skip: "distinct (map dedupKey (selectLoop opts rs c (insert (dedupKey r) seen) sel))" for c
    using sub Cons.prems(2) by (rule Cons.IH)
  have push: "distinct (map dedupKey (selectLoop opts rs c (insert (dedupKey r) seen) (sel @ [r])))"
    if "dedupKey r \<notin> seen" for c
  proof (rule Cons.IH)
    show "dedupKey ` set (sel @ [r]) \<subseteq> insert (dedupKey r) seen"
      using Cons.prems(1) by auto
    show "distinct (map dedupKey (sel @ [r]))"
      using Cons.prems that by auto
  qed
  have stop: "distinct (map dedupKey (sel @ [r]))" if "dedupKey r \<notin> seen"
    using Cons.prems that by auto
  show ?case
    using same skip push stop by (simp add: Let_def)
qed

lemma assembleLoop_distinct:
  "dedupKey ` set sel \<subseteq> seen \<Longrightarrow> distinct (map dedupKey sel) \<Longrightarrow>
   distinct (map dedupKey (assembleLoop opts rs cnt seen sel))"
proof (induction rs arbitrary: cnt seen sel)
  case Nil
  then show ?case by simp
next
  case (Cons r rs)
  have sub: "dedupKey ` set sel \<subseteq> insert (dedupKey r) seen"
    using Cons.prems(1) by auto
  have same: "distinct (map dedupKey (assembleLoop opts rs c seen sel))" for c
    using Cons.prems by (rule Cons.IH)
  have skip: "distinct (map dedupKey (assembleLoop opts rs c (insert (dedupKey r) seen) sel))" for c
    using sub Cons.prems(2) by (rule Cons.IH)
  have push: "distinct (map dedupKey (assembleLoop opts rs c (insert (dedupKey r) seen) (sel @ [r])))"
    if "dedupKey r \<notin> seen" for c
  proof (rule Cons.IH)
    show "dedupKey ` set (sel @ [r]) \<subseteq> insert (dedupKey r) seen"
      using Cons.prems(1) by auto
    show "distinct (map dedupKey (sel @ [r]))"
      using Cons.prems that by auto
  qed
  have stop: "distinct (map dedupKey (sel @ [r]))" if "dedupKey r \<notin> seen"
    using Cons.prems that by auto
  show ?case
    using same skip push stop by (simp add: Let_def)
qed

text \<open>Two items with the same source path and section path have the same key.\<close>

lemma distinct_dedupKey_pairs:
  "distinct (map dedupKey xs) \<Longrightarrow>
   distinct (map (\<lambda>r. (sourcePath (metadata (chunk r)), sectionPath (metadata (chunk r)))) xs)"
  by (induction xs) (auto simp: dedupKey_def sectionKey_def image_iff)

lemma selectLoop_all_low:
  "\<forall>r\<in>set rs. isLowSignalChunk r opts \<Longrightarrow> selectLoop opts rs cnt seen sel = sel"
  by (induction rs arbitrary: cnt seen sel) auto

lemma assembleLoop_all_low:
  "\<forall>r\<in>set rs. isLowSignalChunk r opts \<Longrightarrow> assembleLoop opts rs cnt seen sel = sel"
  by (induction rs arbitrary: cnt seen sel) auto

lemma selectForContext_length:
  "0 < maxChunks opts \<Longrightarrow>
   real (length (selectForContext pool opts)) < maxChunks opts + 1"
  unfolding selectForContext_def by (rule selectLoop_length) simp

lemma assembleContextFromCandidates_length:
  "0 < maxChunks opts \<Longrightarrow>
   real (length (assembleContextFromCandidates pool opts)) < maxChunks opts + 1"
  unfolding assembleContextFromCandidates_def by (rule assembleLoop_length) simp

lemma selectForContext_distinct:
  "distinct (map (\<lambda>r. (sourcePath (metadata (chunk r)), sectionPath (metadata (chunk r))))
               (selectForContext pool opts))"
  unfolding selectForContext_def
  by (rule distinct_dedupKey_pairs, rule selectLoop_distinct) simp_all

lemma assembleContextFromCandidates_distinct:
  "distinct (map (\<lambda>r. (sourcePath (metadata (chunk r)), sectionPath (metadata (chunk r))))
               (assembleContextFromCandidates pool opts))"
  unfolding assembleContextFromCandidates_def
  by (rule distinct_dedupKey_pairs, rule assembleLoop_distinct) simp_all

lemma maxChunks_primaryOpts: "maxChunks (primaryOpts args pp) = maxChunks args"
  by (simp add: primaryOpts_def)

lemma maxChunks_relaxedOpts: "maxChunks (relaxedOpts args pp) = maxChunks args"
  by (simp add: relaxedOpts_def)


section \<open>The per-source cap and priority sources\<close>

text \<open>
  In scripts/ask a priority source is not counted: candidates that all come from
  priority sources, with pairwise different keys, are selected one after the other
  until \<open>maxChunks\<close> is reached (the first \<open>maxChunks\<close> of them, rounded up when it is
  a fraction), whatever \<open>maxPerFile\<close> is.
\<close>

lemma assembleLoop_priority:
  "\<forall>r\<in>set rs. isPrioritySource (sourcePath (metadata (chunk r))) (priorityPrefixes opts) \<Longrightarrow>
   distinct (map dedupKey rs) \<Longrightarrow> dedupKey ` set rs \<inter> seen = {} \<Longrightarrow>
   real (length sel) < maxChunks opts \<Longrightarrow>
   assembleLoop opts rs cnt seen sel =
     sel @ take (nat \<lceil>maxChunks opts\<rceil> - length sel) rs"
proof (induction rs arbitrary: cnt seen sel)
  case Nil
  then show ?case by simp
next
  case (Cons r rs)
  have pr: "isPrioritySource (sourcePath (metadata (chunk r))) (priorityPrefixes opts)"
    using Cons.prems(1) by simp
  have nl: "\<not> isLowSignalChunk r opts" using pr by (simp add: isLowSignalChunk_def)
  have ns: "dedupKey r \<notin> seen" using Cons.prems(3) by auto
  show ?case
  proof (cases "real (length (sel @ [r])) \<ge> maxChunks opts")
    case True
    with Cons.prems(4) have "\<lceil>maxChunks opts\<rceil> = int (length sel) + 1"
      by (intro ceiling_unique) auto
    then have "nat \<lceil>maxChunks opts\<rceil> - length sel = 1" by simp
    with True nl ns pr show ?thesis by (simp add: Let_def)
  next
    case False
    have ih: "assembleLoop opts rs cnt (insert (dedupKey r) seen) (sel @ [r]) =
              (sel @ [r]) @ take (nat \<lceil>maxChunks opts\<rceil> - length (sel @ [r])) rs"
      using Cons.prems False by (intro Cons.IH) auto
    from False have "int (length sel) + 1 < \<lceil>maxChunks opts\<rceil>"
      by (simp add: less_ceiling_iff)
    then have "nat \<lceil>maxChunks opts\<rceil> - length sel =
               Suc (nat \<lceil>maxChunks opts\<rceil> - length (sel @ [r]))"
      by simp
    with False nl ns pr ih show ?thesis by (simp add: Let_def)
  qed
qed

lemma assemble_priority_waiver:
  assumes "\<forall>r\<in>set pool. isPrioritySource (sourcePath (metadata (chunk r))) (priorityPrefixes opts)"
    and "distinct (map dedupKey pool)" and "0 < maxChunks opts"
  shows "assembleContextFromCandidates pool opts = take (nat \<lceil>maxChunks opts\<rceil>) pool"
  unfolding assembleContextFromCandidates_def
  using assembleLoop_priority [of pool opts "{}" "[]" Map.empty] assms by simp

text \<open>
  The cap itself: scripts/eval counts every source, so no source path, priority or not,
  contributes more than \<open>maxPerFile\<close> items (rounded up when it is a fraction);
  scripts/ask caps the sources that are not priority sources.
\<close>

lemma selectLoop_cap:
  "\<forall>g. length (fromSource g sel) = (case cnt g of None \<Rightarrow> 0 | Some n \<Rightarrow> n) \<Longrightarrow>
   \<forall>g. real (length (fromSource g sel)) < max 0 (maxPerFile opts) + 1 \<Longrightarrow>
   real (length (fromSource f (selectLoop opts rs cnt seen sel))) < max 0 (maxPerFile opts) + 1"
proof (induction rs arbitrary: cnt seen sel)
  case Nil
  then show ?case by simp
next
  case (Cons r rs)
  let ?file = "sourcePath (metadata (chunk r))"
  let ?count = "case cnt ?file of None \<Rightarrow> 0 | Some n \<Rightarrow> n"
  have same: "real (length (fromSource f (selectLoop opts rs cnt s sel))) < max 0 (maxPerFile opts) + 1" for s
    using Cons.prems by (rule Cons.IH)
  have inv1: "\<forall>g. length (fromSource g (sel @ [r])) =
                 (case (cnt(?file \<mapsto> ?count + 1)) g of None \<Rightarrow> 0 | Some n \<Rightarrow> n)"
    using Cons.prems(1) by (auto simp: fromSource_def)
  have inv2: "\<forall>g. real (length (fromSource g (sel @ [r]))) < max 0 (maxPerFile opts) + 1"
    if "\<not> real ?count \<ge> maxPerFile opts"
    using Cons.prems that by (auto simp: fromSource_def)
  have push: "real (length (fromSource f (selectLoop opts rs (cnt(?file \<mapsto> ?count + 1)) s (sel @ [r]))))
              < max 0 (maxPerFile opts) + 1" if "\<not> real ?count \<ge> maxPerFile opts" for s
    using inv1 inv2 [OF that] by (rule Cons.IH)
  have stop: "real (length (fromSource f (sel @ [r]))) < max 0 (maxPerFile opts) + 1"
    if "\<not> real ?count \<ge> maxPerFile opts"
    using inv2 [OF that] by simp
  show ?case using same push stop by (simp add: Let_def)
qed

lemma selectForContext_cap:
  "real (length (fromSource f (selectForContext pool opts))) < max 0 (maxPerFile opts) + 1"
  unfolding selectForContext_def by (rule selectLoop_cap) (simp_all add: fromSource_def)

lemma assembleLoop_cap:
  "\<not> isPrioritySource f (priorityPrefixes opts) \<Longrightarrow>
   \<forall>g. \<not> isPrioritySource g (priorityPrefixes opts) \<longrightarrow>
       length (fromSource g sel) = (case cnt g of None \<Rightarrow> 0 | Some n \<Rightarrow> n) \<Longrightarrow>
   \<forall>g. \<not> isPrioritySource g (priorityPrefixes opts) \<longrightarrow>
       real (length (fromSource g sel)) < max 0 (maxPerFile opts) + 1 \<Longrightarrow>
   real (length (fromSource f (assembleLoop opts rs cnt seen sel))) < max 0 (maxPerFile opts) + 1"
proof (induction rs arbitrary: cnt seen sel)
  case Nil
  then show ?case by simp
next
  case (Cons r rs)
  let ?file = "sourcePath (metadata (chunk r))"
  let ?count = "case cnt ?file of None \<Rightarrow> 0 | Some n \<Rightarrow> n"
  let ?pr = "isPrioritySource ?file (priorityPrefixes opts)"
  have same: "real (length (fromSource f (assembleLoop opts rs cnt s sel))) < max 0 (maxPerFile opts) + 1" for s
    using Cons.prems by (rule Cons.IH)
  have inv1: "\<forall>g. \<not> isPrioritySource g (priorityPrefixes opts) \<longrightarrow>
                 length (fromSource g (sel @ [r])) =
                 (case (cnt(?file \<mapsto> ?count + 1)) g of None \<Rightarrow> 0 | Some n \<Rightarrow> n)"
    if "\<not> ?pr"
    using Cons.prems(2) that by (auto simp: fromSource_def)
  have inv2: "\<forall>g. \<not> isPrioritySource g (priorityPrefixes opts) \<longrightarrow>
                 real (length (fromSource g (sel @ [r]))) < max 0 (maxPerFile opts) + 1"
    if "\<not> ?pr" "\<not> real ?count \<ge> maxPerFile opts"
    using Cons.prems that by (auto simp: fromSource_def)
  have pinv1: "\<forall>g. \<not> isPrioritySource g (priorityPrefixes opts) \<longrightarrow>
                 length (fromSource g (sel @ [r])) = (case cnt g of None \<Rightarrow> 0 | Some n \<Rightarrow> n)"
    if "?pr"
    using Cons.prems(2) that by (auto simp: fromSource_def)
  have pinv2: "\<forall>g. \<not> isPrioritySource g (priorityPrefixes opts) \<longrightarrow>
                 real (length (fromSource g (sel @ [r]))) < max 0 (maxPerFile opts) + 1"
    if "?pr"
    using Cons.prems(3) that by (auto simp: fromSource_def)
  have push: "real (length (fromSource f (assembleLoop opts rs (cnt(?file \<mapsto> ?count + 1)) s (sel @ [r]))))
              < max 0 (maxPerFile opts) + 1" if "\<not> ?pr" "\<not> real ?count \<ge> maxPerFile opts" for s
    using Cons.prems(1) inv1 [OF that(1)] inv2 [OF that] by (rule Cons.IH)
  have ppush: "real (length (fromSource f (assembleLoop opts rs cnt s (sel @ [r]))))
              < max 0 (maxPerFile opts) + 1" if "?pr" for s
    using Cons.prems(1) pinv1 [OF that] pinv2 [OF that] by (rule Cons.IH)
  have stop: "real (length (fromSource f (sel @ [r]))) < max 0 (maxPerFile opts) + 1"
    if "\<not> ?pr" "\<not> real ?count \<ge> maxPerFile opts"
    using inv2 [OF that] Cons.prems(1) by simp
  have pstop: "real (length (fromSource f (sel @ [r]))) < max 0 (maxPerFile opts) + 1"
    if "?pr"
    using pinv2 [OF that] Cons.prems(1) by simp
  show ?case
  proof (cases "isLowSignalChunk r opts \<or> dedupKey r \<in> seen")
    case True
    then show ?thesis using same by auto
  next
    case skip: False
    show ?thesis
    proof (cases ?pr)
      case True
      then show ?thesis using skip ppush pstop by (simp add: Let_def)
    next
      case np: False
      show ?thesis
      proof (cases "real ?count \<ge> maxPerFile opts")
        case True
        then show ?thesis using skip np same by (simp add: Let_def)
      next
        case False
        then show ?thesis using skip np push [OF np False] stop [OF np False]
          by (simp add: Let_def)
      qed
    qed
  qed
qed

lemma assembleContextFromCandidates_cap:
  "\<not> isPrioritySource f (priorityPrefixes opts) \<Longrightarrow>
   real (length (fromSource f (assembleContextFromCandidates pool opts))) < max 0 (maxPerFile opts) + 1"
  unfolding assembleContextFromCandidates_def
  by (rule assembleLoop_cap) (auto simp: fromSource_def max_def)

text \<open>
  C1: the per-source cap is waived for priority sources. scripts/ask does so, as shown
  above; \<open>selectForContext\<close> of scripts/eval counts every source. Three sections of
  \<open>README.md\<close>, which the plan of the db intent lists as a priority prefix, with the
  default \<open>maxPerFile = 2\<close> and \<open>maxChunks = 8\<close>: scripts/eval selects the first two
  only, scripts/ask selects all three.
\<close>

theorem selectForContext_caps_priority_source:
  "isPrioritySource (js ''README.md'') [js ''README.md'', js ''apps/api/README.md''] \<and>
   selectForContext
     [mkChunk ''c1'' ''README.md'' (Some ''Install'') (js ''pnpm install''),
      mkChunk ''c2'' ''README.md'' (Some ''Usage'') (js ''pnpm ask''),
      mkChunk ''c3'' ''README.md'' (Some ''Database'') (js ''postgres'')]
     (primaryOpts evalDefaults [js ''README.md'', js ''apps/api/README.md''])
   = [mkChunk ''c1'' ''README.md'' (Some ''Install'') (js ''pnpm install''),
      mkChunk ''c2'' ''README.md'' (Some ''Usage'') (js ''pnpm ask'')] \<and>
   assembleContextFromCandidates
     [mkChunk ''c1'' ''README.md'' (Some ''Install'') (js ''pnpm install''),
      mkChunk ''c2'' ''README.md'' (Some ''Usage'') (js ''pnpm ask''),
      mkChunk ''c3'' ''README.md'' (Some ''Database'') (js ''postgres'')]
     (primaryOpts evalDefaults [js ''README.md'', js ''apps/api/README.md''])
   = [mkChunk ''c1'' ''README.md'' (Some ''Install'') (js ''pnpm install''),
      mkChunk ''c2'' ''README.md'' (Some ''Usage'') (js ''pnpm ask''),
      mkChunk ''c3'' ''README.md'' (Some ''Database'') (js ''postgres'')]"
  by (simp add: eval_simps)


section \<open>Length and deduplication of the selection\<close>

text \<open>
  C2, as stated, at a pool of two short chunks of the same section (the same source
  path and section path) under the defaults: both passes reject every item, the ladder
  falls back to the raw head of the pool, and the output holds both chunks, two items
  with equal keys.
\<close>

theorem raw_fallback_keeps_duplicates:
  "selectedFinal evalDefaults []
     [mkChunk ''c1'' ''docs/a.md'' (Some ''Intro'') (js ''short''),
      mkChunk ''c2'' ''docs/a.md'' (Some ''Intro'') (js ''tiny'')]
   = [mkChunk ''c1'' ''docs/a.md'' (Some ''Intro'') (js ''short''),
      mkChunk ''c2'' ''docs/a.md'' (Some ''Intro'') (js ''tiny'')] \<and>
   assembled askDefaults []
     [mkChunk ''c1'' ''docs/a.md'' (Some ''Intro'') (js ''short''),
      mkChunk ''c2'' ''docs/a.md'' (Some ''Intro'') (js ''tiny'')]
   = [mkChunk ''c1'' ''docs/a.md'' (Some ''Intro'') (js ''short''),
      mkChunk ''c2'' ''docs/a.md'' (Some ''Intro'') (js ''tiny'')] \<and>
   sourcePath (metadata (chunk (mkChunk ''c1'' ''docs/a.md'' (Some ''Intro'') (js ''short''))))
   = sourcePath (metadata (chunk (mkChunk ''c2'' ''docs/a.md'' (Some ''Intro'') (js ''tiny'')))) \<and>
   sectionPath (metadata (chunk (mkChunk ''c1'' ''docs/a.md'' (Some ''Intro'') (js ''short''))))
   = sectionPath (metadata (chunk (mkChunk ''c2'' ''docs/a.md'' (Some ''Intro'') (js ''tiny''))))"
  by (simp add: eval_simps toIntegerOrInfinity_def)

lemma ceiling_bound: "real n < x + 1 \<Longrightarrow> int n \<le> \<lceil>x\<rceil>"
  by linarith

lemma raw_length: "0 < x \<Longrightarrow> int (length (slice0 pool (toIntegerOrInfinity x))) \<le> \<lceil>x\<rceil>"
proof -
  assume "0 < x"
  then have "int (length (slice0 pool (toIntegerOrInfinity x))) \<le> \<lfloor>x\<rfloor>"
    by (simp add: toIntegerOrInfinity_nonneg slice0_length)
  also have "\<lfloor>x\<rfloor> \<le> \<lceil>x\<rceil>" by (rule floor_le_ceiling)
  finally show ?thesis .
qed

lemma selectedFinal_length:
  assumes mc: "0 < maxChunks args"
  shows "int (length (selectedFinal args pp pool)) \<le> \<lceil>maxChunks args\<rceil>"
proof -
  have "int (length (selectForContext pool (primaryOpts args pp))) \<le> \<lceil>maxChunks args\<rceil>"
    using selectForContext_length [of "primaryOpts args pp" pool] mc
    by (intro ceiling_bound) (simp add: maxChunks_primaryOpts)
  moreover have "int (length (selectForContext pool (relaxedOpts args pp))) \<le> \<lceil>maxChunks args\<rceil>"
    using selectForContext_length [of "relaxedOpts args pp" pool] mc
    by (intro ceiling_bound) (simp add: maxChunks_relaxedOpts)
  moreover note raw_length [OF mc, of pool]
  ultimately show ?thesis
    by (simp add: selectedFinal_def Let_def)
qed

lemma assembled_length:
  assumes mc: "0 < maxChunks args"
  shows "int (length (assembled args pp pool)) \<le> \<lceil>maxChunks args\<rceil>"
proof -
  have "int (length (assembleContextFromCandidates pool (primaryOpts args pp)))
        \<le> \<lceil>maxChunks args\<rceil>"
    using assembleContextFromCandidates_length [of "primaryOpts args pp" pool] mc
    by (intro ceiling_bound) (simp add: maxChunks_primaryOpts)
  moreover have "int (length (assembleContextFromCandidates pool (relaxedOpts args pp)))
        \<le> \<lceil>maxChunks args\<rceil>"
    using assembleContextFromCandidates_length [of "relaxedOpts args pp" pool] mc
    by (intro ceiling_bound) (simp add: maxChunks_relaxedOpts)
  moreover note raw_length [OF mc, of pool]
  ultimately show ?thesis
    by (simp add: assembled_def Let_def)
qed

lemma integral_bound: "x \<in> \<int> \<Longrightarrow> int n \<le> \<lceil>x\<rceil> \<Longrightarrow> real n \<le> x"
  by (auto elim!: Ints_cases)

text \<open>
  C2, amended: for \<open>maxChunks > 0\<close> the output of the ladder, in both scripts, has at
  most \<open>maxChunks\<close> items, rounded up when \<open>maxChunks\<close> is a fraction; so for an integer
  \<open>maxChunks \<ge> 1\<close> it has at most \<open>maxChunks\<close> items. Whenever the primary or the
  relaxed pass selects something, the output has no two items with the same source path
  and section path. When both passes are empty the output is the raw head of the pool
  as it is, \<open>candidatePool.slice(0, maxChunks)\<close>.
\<close>

theorem ladder_length_and_dedup:
  "(0 < maxChunks args \<longrightarrow>
      int (length (selectedFinal args pp pool)) \<le> \<lceil>maxChunks args\<rceil> \<and>
      int (length (assembled args pp pool)) \<le> \<lceil>maxChunks args\<rceil>) \<and>
   (1 \<le> maxChunks args \<and> maxChunks args \<in> \<int> \<longrightarrow>
      real (length (selectedFinal args pp pool)) \<le> maxChunks args \<and>
      real (length (assembled args pp pool)) \<le> maxChunks args) \<and>
   (selectForContext pool (primaryOpts args pp) \<noteq> [] \<or>
    selectForContext pool (relaxedOpts args pp) \<noteq> [] \<longrightarrow>
      distinct (map (\<lambda>r. (sourcePath (metadata (chunk r)), sectionPath (metadata (chunk r))))
                 (selectedFinal args pp pool))) \<and>
   (assembleContextFromCandidates pool (primaryOpts args pp) \<noteq> [] \<or>
    assembleContextFromCandidates pool (relaxedOpts args pp) \<noteq> [] \<longrightarrow>
      distinct (map (\<lambda>r. (sourcePath (metadata (chunk r)), sectionPath (metadata (chunk r))))
                 (assembled args pp pool))) \<and>
   (selectForContext pool (primaryOpts args pp) = [] \<and>
    selectForContext pool (relaxedOpts args pp) = [] \<longrightarrow>
      selectedFinal args pp pool = slice0 pool (toIntegerOrInfinity (maxChunks args))) \<and>
   (assembleContextFromCandidates pool (primaryOpts args pp) = [] \<and>
    assembleContextFromCandidates pool (relaxedOpts args pp) = [] \<longrightarrow>
      assembled args pp pool = slice0 pool (toIntegerOrInfinity (maxChunks args)))"
proof (intro conjI impI)
  assume "0 < maxChunks args"
  then show "int (length (selectedFinal args pp pool)) \<le> \<lceil>maxChunks args\<rceil>"
    by (rule selectedFinal_length)
next
  assume "0 < maxChunks args"
  then show "int (length (assembled args pp pool)) \<le> \<lceil>maxChunks args\<rceil>"
    by (rule assembled_length)
next
  assume h: "1 \<le> maxChunks args \<and> maxChunks args \<in> \<int>"
  then have "0 < maxChunks args" by simp
  then show "real (length (selectedFinal args pp pool)) \<le> maxChunks args"
    using h by (intro integral_bound selectedFinal_length) simp_all
next
  assume h: "1 \<le> maxChunks args \<and> maxChunks args \<in> \<int>"
  then have "0 < maxChunks args" by simp
  then show "real (length (assembled args pp pool)) \<le> maxChunks args"
    using h by (intro integral_bound assembled_length) simp_all
next
  assume "selectForContext pool (primaryOpts args pp) \<noteq> [] \<or>
          selectForContext pool (relaxedOpts args pp) \<noteq> []"
  then show "distinct (map (\<lambda>r. (sourcePath (metadata (chunk r)), sectionPath (metadata (chunk r))))
                         (selectedFinal args pp pool))"
    using selectForContext_distinct [of pool "primaryOpts args pp"]
          selectForContext_distinct [of pool "relaxedOpts args pp"]
    by (auto simp: selectedFinal_def Let_def)
next
  assume "assembleContextFromCandidates pool (primaryOpts args pp) \<noteq> [] \<or>
          assembleContextFromCandidates pool (relaxedOpts args pp) \<noteq> []"
  then show "distinct (map (\<lambda>r. (sourcePath (metadata (chunk r)), sectionPath (metadata (chunk r))))
                         (assembled args pp pool))"
    using assembleContextFromCandidates_distinct [of pool "primaryOpts args pp"]
          assembleContextFromCandidates_distinct [of pool "relaxedOpts args pp"]
    by (auto simp: assembled_def Let_def)
next
  assume "selectForContext pool (primaryOpts args pp) = [] \<and>
          selectForContext pool (relaxedOpts args pp) = []"
  then show "selectedFinal args pp pool = slice0 pool (toIntegerOrInfinity (maxChunks args))"
    by (simp add: selectedFinal_def)
next
  assume "assembleContextFromCandidates pool (primaryOpts args pp) = [] \<and>
          assembleContextFromCandidates pool (relaxedOpts args pp) = []"
  then show "assembled args pp pool = slice0 pool (toIntegerOrInfinity (maxChunks args))"
    by (simp add: assembled_def)
qed

theorem ladder_length_and_dedup_witness:
  "(0::real) < 2 \<and> (2::real) \<in> \<int> \<and>
   selectForContext
     [mkChunk ''c1'' ''docs/a.md'' (Some ''Intro'') (js ''first''),
      mkChunk ''c2'' ''docs/a.md'' (Some ''Intro'') (js ''second''),
      mkChunk ''c3'' ''docs/b.md'' None (js ''third''),
      mkChunk ''c4'' ''docs/c.md'' None (js ''fourth'')]
     (primaryOpts (evalDefaults\<lparr>maxChunks := 2, minChars := 3\<rparr>) []) \<noteq> [] \<and>
   assembleContextFromCandidates
     [mkChunk ''c1'' ''docs/a.md'' (Some ''Intro'') (js ''first''),
      mkChunk ''c2'' ''docs/a.md'' (Some ''Intro'') (js ''second''),
      mkChunk ''c3'' ''docs/b.md'' None (js ''third''),
      mkChunk ''c4'' ''docs/c.md'' None (js ''fourth'')]
     (primaryOpts (evalDefaults\<lparr>maxChunks := 2, minChars := 3\<rparr>) []) \<noteq> [] \<and>
   real (length (selectedFinal (evalDefaults\<lparr>maxChunks := 2, minChars := 3\<rparr>) []
     [mkChunk ''c1'' ''docs/a.md'' (Some ''Intro'') (js ''first''),
      mkChunk ''c2'' ''docs/a.md'' (Some ''Intro'') (js ''second''),
      mkChunk ''c3'' ''docs/b.md'' None (js ''third''),
      mkChunk ''c4'' ''docs/c.md'' None (js ''fourth'')])) \<le> 2 \<and>
   distinct (map (\<lambda>r. (sourcePath (metadata (chunk r)), sectionPath (metadata (chunk r))))
     (selectedFinal (evalDefaults\<lparr>maxChunks := 2, minChars := 3\<rparr>) []
       [mkChunk ''c1'' ''docs/a.md'' (Some ''Intro'') (js ''first''),
      mkChunk ''c2'' ''docs/a.md'' (Some ''Intro'') (js ''second''),
      mkChunk ''c3'' ''docs/b.md'' None (js ''third''),
      mkChunk ''c4'' ''docs/c.md'' None (js ''fourth'')])) \<and>
   distinct (map (\<lambda>r. (sourcePath (metadata (chunk r)), sectionPath (metadata (chunk r))))
     (assembled (evalDefaults\<lparr>maxChunks := 2, minChars := 3\<rparr>) []
       [mkChunk ''c1'' ''docs/a.md'' (Some ''Intro'') (js ''first''),
      mkChunk ''c2'' ''docs/a.md'' (Some ''Intro'') (js ''second''),
      mkChunk ''c3'' ''docs/b.md'' None (js ''third''),
      mkChunk ''c4'' ''docs/c.md'' None (js ''fourth'')]))"
proof -
  have p: "selectForContext
     [mkChunk ''c1'' ''docs/a.md'' (Some ''Intro'') (js ''first''),
      mkChunk ''c2'' ''docs/a.md'' (Some ''Intro'') (js ''second''),
      mkChunk ''c3'' ''docs/b.md'' None (js ''third''),
      mkChunk ''c4'' ''docs/c.md'' None (js ''fourth'')]
     (primaryOpts (evalDefaults\<lparr>maxChunks := 2, minChars := 3\<rparr>) []) \<noteq> []"
    by (simp add: eval_simps)
  have a: "assembleContextFromCandidates
     [mkChunk ''c1'' ''docs/a.md'' (Some ''Intro'') (js ''first''),
      mkChunk ''c2'' ''docs/a.md'' (Some ''Intro'') (js ''second''),
      mkChunk ''c3'' ''docs/b.md'' None (js ''third''),
      mkChunk ''c4'' ''docs/c.md'' None (js ''fourth'')]
     (primaryOpts (evalDefaults\<lparr>maxChunks := 2, minChars := 3\<rparr>) []) \<noteq> []"
    by (simp add: eval_simps)
  have m: "maxChunks (evalDefaults\<lparr>maxChunks := 2, minChars := 3\<rparr>) = 2"
    by (simp add: evalDefaults_def)
  show ?thesis
    using p a m
      ladder_length_and_dedup [of "evalDefaults\<lparr>maxChunks := 2, minChars := 3\<rparr>" "[]"
        "[mkChunk ''c1'' ''docs/a.md'' (Some ''Intro'') (js ''first''),
      mkChunk ''c2'' ''docs/a.md'' (Some ''Intro'') (js ''second''),
      mkChunk ''c3'' ''docs/b.md'' None (js ''third''),
      mkChunk ''c4'' ''docs/c.md'' None (js ''fourth'')]"]
    by simp
qed

text \<open>
  Why the bound asks for \<open>maxChunks > 0\<close> and rounds up: the loops test the bound after
  they have added an item, so with \<open>maxChunks = 0\<close> the first accepted candidate is
  returned, and with \<open>maxChunks = 1.5\<close> a second item is added before \<open>2 \<ge> 1.5\<close> stops
  the loop.
\<close>

lemma zero_maxChunks_selects_one:
  "selectedFinal (evalDefaults\<lparr>maxChunks := 0, minChars := 3\<rparr>) []
     [mkChunk ''c1'' ''docs/a.md'' (Some ''Intro'') (js ''first''),
      mkChunk ''c3'' ''docs/b.md'' None (js ''third'')]
   = [mkChunk ''c1'' ''docs/a.md'' (Some ''Intro'') (js ''first'')]"
  by (simp add: eval_simps)

lemma fractional_maxChunks_selects_two:
  "selectedFinal (evalDefaults\<lparr>maxChunks := 1.5, minChars := 3\<rparr>) []
     [mkChunk ''c1'' ''docs/a.md'' (Some ''Intro'') (js ''first''),
      mkChunk ''c3'' ''docs/b.md'' None (js ''third''),
      mkChunk ''c4'' ''docs/c.md'' None (js ''fourth'')]
   = [mkChunk ''c1'' ''docs/a.md'' (Some ''Intro'') (js ''first''),
      mkChunk ''c3'' ''docs/b.md'' None (js ''third'')]"
  by (simp add: eval_simps)


section \<open>The fallback ladder\<close>

lemma low_primary:
  "\<not> isPrioritySource (sourcePath (metadata (chunk r))) pp \<Longrightarrow>
   real (length (trim (chunkText (chunk r)))) < minChars args \<Longrightarrow>
   isLowSignalChunk r (primaryOpts args pp)"
  by (simp add: isLowSignalChunk_def primaryOpts_def)

lemma low_relaxed_iff:
  "\<not> isPrioritySource (sourcePath (metadata (chunk r))) pp \<Longrightarrow>
   isLowSignalChunk r (relaxedOpts args pp) \<longleftrightarrow>
   real (length (trim (chunkText (chunk r)))) < min (minChars args) 60"
  by (simp add: isLowSignalChunk_def relaxedOpts_def)

text \<open>A pass only selects candidates of the pool that are not low-signal.\<close>

lemma selectLoop_subset:
  "set (selectLoop opts rs cnt seen sel)
   \<subseteq> set sel \<union> {r \<in> set rs. \<not> isLowSignalChunk r opts}"
proof (induction rs arbitrary: cnt seen sel)
  case Nil
  then show ?case by simp
next
  case (Cons r rs)
  have ih: "set (selectLoop opts rs c s l) \<subseteq> set l \<union> {x \<in> set rs. \<not> isLowSignalChunk x opts}"
    for c s l by (rule Cons.IH)
  have skip: "set (selectLoop opts rs c s sel)
              \<subseteq> set sel \<union> {x \<in> set (r # rs). \<not> isLowSignalChunk x opts}" for c s
    using ih [of c s sel] by auto
  have push: "set (selectLoop opts rs c s (sel @ [r]))
              \<subseteq> set sel \<union> {x \<in> set (r # rs). \<not> isLowSignalChunk x opts}"
    if "\<not> isLowSignalChunk r opts" for c s
    using ih [of c s "sel @ [r]"] that by auto
  have stop: "set (sel @ [r]) \<subseteq> set sel \<union> {x \<in> set (r # rs). \<not> isLowSignalChunk x opts}"
    if "\<not> isLowSignalChunk r opts"
    using that by auto
  show ?case using skip push stop by (simp add: Let_def)
qed

lemma assembleLoop_subset:
  "set (assembleLoop opts rs cnt seen sel)
   \<subseteq> set sel \<union> {r \<in> set rs. \<not> isLowSignalChunk r opts}"
proof (induction rs arbitrary: cnt seen sel)
  case Nil
  then show ?case by simp
next
  case (Cons r rs)
  have ih: "set (assembleLoop opts rs c s l) \<subseteq> set l \<union> {x \<in> set rs. \<not> isLowSignalChunk x opts}"
    for c s l by (rule Cons.IH)
  have skip: "set (assembleLoop opts rs c s sel)
              \<subseteq> set sel \<union> {x \<in> set (r # rs). \<not> isLowSignalChunk x opts}" for c s
    using ih [of c s sel] by auto
  have push: "set (assembleLoop opts rs c s (sel @ [r]))
              \<subseteq> set sel \<union> {x \<in> set (r # rs). \<not> isLowSignalChunk x opts}"
    if "\<not> isLowSignalChunk r opts" for c s
    using ih [of c s "sel @ [r]"] that by auto
  have stop: "set (sel @ [r]) \<subseteq> set sel \<union> {x \<in> set (r # rs). \<not> isLowSignalChunk x opts}"
    if "\<not> isLowSignalChunk r opts"
    using that by auto
  show ?case using skip push stop by (simp add: Let_def)
qed

text \<open>What is selected stays selected.\<close>

lemma selectLoop_keeps: "sel \<noteq> [] \<Longrightarrow> selectLoop opts rs cnt seen sel \<noteq> []"
  by (induction rs arbitrary: cnt seen sel) (auto simp: Let_def)

lemma assembleLoop_keeps: "sel \<noteq> [] \<Longrightarrow> assembleLoop opts rs cnt seen sel \<noteq> []"
  by (induction rs arbitrary: cnt seen sel) (auto simp: Let_def)

text \<open>
  From the initial state, the first candidate that is not low-signal is selected,
  provided \<open>maxPerFile\<close> is positive.
\<close>

lemma selectLoop_first:
  "\<exists>r\<in>set rs. \<not> isLowSignalChunk r opts \<Longrightarrow> 0 < maxPerFile opts \<Longrightarrow>
   selectLoop opts rs Map.empty {} [] \<noteq> []"
proof (induction rs)
  case Nil
  then show ?case by simp
next
  case (Cons r rs)
  show ?case
  proof (cases "isLowSignalChunk r opts")
    case True
    then show ?thesis using Cons by auto
  next
    case False
    then show ?thesis
      using Cons.prems(2) selectLoop_keeps [of "[r]" opts rs]
      by (simp add: Let_def)
  qed
qed

lemma assembleLoop_first:
  "\<exists>r\<in>set rs. \<not> isLowSignalChunk r opts \<Longrightarrow> 0 < maxPerFile opts \<Longrightarrow>
   assembleLoop opts rs Map.empty {} [] \<noteq> []"
proof (induction rs)
  case Nil
  then show ?case by simp
next
  case (Cons r rs)
  show ?case
  proof (cases "isLowSignalChunk r opts")
    case True
    then show ?thesis using Cons by auto
  next
    case False
    then show ?thesis
      using Cons.prems(2) assembleLoop_keeps [of "[r]" opts rs]
      by (simp add: Let_def)
  qed
qed

text \<open>With \<open>maxPerFile \<le> 0\<close> no counted source is ever selected.\<close>

lemma selectLoop_no_quota:
  "maxPerFile opts \<le> 0 \<Longrightarrow> selectLoop opts rs cnt seen sel = sel"
  by (induction rs arbitrary: cnt seen sel) (auto simp: Let_def)

lemma assembleLoop_no_quota:
  "maxPerFile opts \<le> 0 \<Longrightarrow>
   \<forall>r\<in>set rs. \<not> isPrioritySource (sourcePath (metadata (chunk r))) (priorityPrefixes opts) \<Longrightarrow>
   assembleLoop opts rs cnt seen sel = sel"
  by (induction rs arbitrary: cnt seen sel) (auto simp: Let_def)

text \<open>
  C3, as stated, at a pool of two chunks under the defaults (\<open>minChars = 120\<close>,
  \<open>maxChunks = 8\<close>): one text of 80 code units and one of 4, both shorter than
  \<open>minChars\<close>, none from a priority source. The relaxed pass accepts the first (80 is
  not below 60) and rejects the second, so the selection has one item, fewer than
  \<open>min (maxChunks, pool size) = 2\<close>.
\<close>

theorem relaxed_pass_selects_fewer:
  "real (length (trim (chunkText (chunk
      (mkChunk ''c1'' ''docs/a.md'' (Some ''Intro'') (replicate 80 0x78))))))
     < minChars evalDefaults \<and>
   real (length (trim (chunkText (chunk
      (mkChunk ''c2'' ''docs/b.md'' (Some ''Notes'') (js ''tiny''))))))
     < minChars evalDefaults \<and>
   selectedFinal evalDefaults []
     [mkChunk ''c1'' ''docs/a.md'' (Some ''Intro'') (replicate 80 0x78),
      mkChunk ''c2'' ''docs/b.md'' (Some ''Notes'') (js ''tiny'')]
   = [mkChunk ''c1'' ''docs/a.md'' (Some ''Intro'') (replicate 80 0x78)] \<and>
   assembled askDefaults []
     [mkChunk ''c1'' ''docs/a.md'' (Some ''Intro'') (replicate 80 0x78),
      mkChunk ''c2'' ''docs/b.md'' (Some ''Notes'') (js ''tiny'')]
   = [mkChunk ''c1'' ''docs/a.md'' (Some ''Intro'') (replicate 80 0x78)] \<and>
   \<not> min (maxChunks evalDefaults)
          (real (length [mkChunk ''c1'' ''docs/a.md'' (Some ''Intro'') (replicate 80 0x78),
                         mkChunk ''c2'' ''docs/b.md'' (Some ''Notes'') (js ''tiny'')]))
       \<le> real (length (selectedFinal evalDefaults []
            [mkChunk ''c1'' ''docs/a.md'' (Some ''Intro'') (replicate 80 0x78),
             mkChunk ''c2'' ''docs/b.md'' (Some ''Notes'') (js ''tiny'')]))"
  by (simp add: eval_simps)

text \<open>
  Two boundary cases: the raw fallback takes no candidate when \<open>maxChunks = 0\<close>; and
  with \<open>maxPerFile = 0\<close> the relaxed pass selects nothing, whatever the lengths, so the
  raw head of the pool is returned.
\<close>

lemma zero_maxChunks_empty_fallback:
  "selectedFinal (evalDefaults\<lparr>maxChunks := 0\<rparr>) []
     [mkChunk ''c1'' ''docs/a.md'' (Some ''Intro'') (js ''short'')] = []"
  by (simp add: eval_simps toIntegerOrInfinity_def)

lemma zero_maxPerFile_raw_fallback:
  "selectedFinal (evalDefaults\<lparr>maxPerFile := 0\<rparr>) []
     [mkChunk ''c1'' ''docs/a.md'' (Some ''Intro'') (replicate 80 0x78),
      mkChunk ''c2'' ''docs/b.md'' (Some ''Notes'') (js ''tiny'')]
   = [mkChunk ''c1'' ''docs/a.md'' (Some ''Intro'') (replicate 80 0x78),
      mkChunk ''c2'' ''docs/b.md'' (Some ''Notes'') (js ''tiny'')]"
  by (simp add: eval_simps toIntegerOrInfinity_def)

text \<open>
  C3, amended: for a non-empty pool in which no item comes from a priority source and
  every trimmed text is shorter than \<open>minChars\<close>, and \<open>maxChunks \<ge> 1\<close>, the ladder of
  either script returns a non-empty selection. If every trimmed text is also shorter
  than \<open>min (minChars, 60)\<close>, or \<open>maxPerFile \<le> 0\<close>, the selection is the raw head of
  the pool: its first \<open>maxChunks\<close> candidates (rounded down), that many or the whole
  pool. Otherwise, that is when some trimmed text has at least \<open>min (minChars, 60)\<close>
  code units and \<open>maxPerFile > 0\<close>, the selection is the output of the relaxed pass,
  made of candidates of the pool whose trimmed text has at least \<open>min (minChars, 60)\<close>
  code units; it may have fewer items than the raw head.
\<close>

theorem fallback_ladder_nonempty:
  assumes ne: "pool \<noteq> []" and mc: "1 \<le> maxChunks args"
    and low: "\<forall>r\<in>set pool. \<not> isPrioritySource (sourcePath (metadata (chunk r))) pp \<and>
                             real (length (trim (chunkText (chunk r)))) < minChars args"
  shows "selectedFinal args pp pool \<noteq> [] \<and> assembled args pp pool \<noteq> [] \<and>
         ((\<forall>r\<in>set pool. real (length (trim (chunkText (chunk r)))) < min (minChars args) 60) \<or>
          maxPerFile args \<le> 0 \<longrightarrow>
            selectedFinal args pp pool = take (nat \<lfloor>maxChunks args\<rfloor>) pool \<and>
            assembled args pp pool = take (nat \<lfloor>maxChunks args\<rfloor>) pool \<and>
            length (selectedFinal args pp pool) = min (nat \<lfloor>maxChunks args\<rfloor>) (length pool) \<and>
            length (assembled args pp pool) = min (nat \<lfloor>maxChunks args\<rfloor>) (length pool)) \<and>
         ((\<exists>r\<in>set pool. min (minChars args) 60 \<le> real (length (trim (chunkText (chunk r))))) \<and>
          0 < maxPerFile args \<longrightarrow>
            selectedFinal args pp pool = selectForContext pool (relaxedOpts args pp) \<and>
            assembled args pp pool = assembleContextFromCandidates pool (relaxedOpts args pp) \<and>
            (\<forall>r\<in>set (selectedFinal args pp pool).
               r \<in> set pool \<and> min (minChars args) 60 \<le> real (length (trim (chunkText (chunk r))))) \<and>
            (\<forall>r\<in>set (assembled args pp pool).
               r \<in> set pool \<and> min (minChars args) 60 \<le> real (length (trim (chunkText (chunk r))))))"
proof -
  let ?s2 = "selectForContext pool (relaxedOpts args pp)"
  let ?a2 = "assembleContextFromCandidates pool (relaxedOpts args pp)"
  have raw: "slice0 pool (toIntegerOrInfinity (maxChunks args)) = take (nat \<lfloor>maxChunks args\<rfloor>) pool"
    using mc by (intro slice0_number) simp
  have "1 \<le> \<lfloor>maxChunks args\<rfloor>" using mc by (simp add: le_floor_iff)
  then have raw_ne: "take (nat \<lfloor>maxChunks args\<rfloor>) pool \<noteq> []"
    using ne by (cases pool) (auto simp: take_Cons')
  have np: "\<forall>r\<in>set pool. \<not> isPrioritySource (sourcePath (metadata (chunk r)))
                               (priorityPrefixes (relaxedOpts args pp))"
    using low by (simp add: relaxedOpts_def)
  have "\<forall>r\<in>set pool. isLowSignalChunk r (primaryOpts args pp)"
    using low by (auto intro: low_primary)
  then have s1: "selectForContext pool (primaryOpts args pp) = []"
    and a1: "assembleContextFromCandidates pool (primaryOpts args pp) = []"
    by (simp_all add: selectForContext_def assembleContextFromCandidates_def
          selectLoop_all_low assembleLoop_all_low)
  have sf: "selectedFinal args pp pool =
            (if ?s2 = [] then take (nat \<lfloor>maxChunks args\<rfloor>) pool else ?s2)"
    by (simp add: selectedFinal_def s1 raw Let_def)
  have af: "assembled args pp pool =
            (if ?a2 = [] then take (nat \<lfloor>maxChunks args\<rfloor>) pool else ?a2)"
    by (simp add: assembled_def a1 raw Let_def)
  have n1: "selectedFinal args pp pool \<noteq> []" using sf raw_ne by simp
  have n2: "assembled args pp pool \<noteq> []" using af raw_ne by simp
  have rest: "selectedFinal args pp pool = take (nat \<lfloor>maxChunks args\<rfloor>) pool \<and>
              assembled args pp pool = take (nat \<lfloor>maxChunks args\<rfloor>) pool \<and>
              length (selectedFinal args pp pool) = min (nat \<lfloor>maxChunks args\<rfloor>) (length pool) \<and>
              length (assembled args pp pool) = min (nat \<lfloor>maxChunks args\<rfloor>) (length pool)"
    if c: "(\<forall>r\<in>set pool. real (length (trim (chunkText (chunk r)))) < min (minChars args) 60) \<or>
           maxPerFile args \<le> 0"
  proof -
    have "?s2 = [] \<and> ?a2 = []"
    proof (cases "maxPerFile args \<le> 0")
      case True
      then have "maxPerFile (relaxedOpts args pp) \<le> 0" by (simp add: relaxedOpts_def)
      then show ?thesis
        using np
        by (simp add: selectForContext_def assembleContextFromCandidates_def
              selectLoop_no_quota assembleLoop_no_quota)
    next
      case False
      with c have "\<forall>r\<in>set pool. isLowSignalChunk r (relaxedOpts args pp)"
        using low by (auto simp: low_relaxed_iff)
      then show ?thesis
        by (simp add: selectForContext_def assembleContextFromCandidates_def
              selectLoop_all_low assembleLoop_all_low)
    qed
    then show ?thesis using sf af by (simp add: min.commute)
  qed
  have other: "selectedFinal args pp pool = ?s2 \<and> assembled args pp pool = ?a2 \<and>
            (\<forall>r\<in>set (selectedFinal args pp pool).
               r \<in> set pool \<and> min (minChars args) 60 \<le> real (length (trim (chunkText (chunk r))))) \<and>
            (\<forall>r\<in>set (assembled args pp pool).
               r \<in> set pool \<and> min (minChars args) 60 \<le> real (length (trim (chunkText (chunk r)))))"
    if c: "(\<exists>r\<in>set pool. min (minChars args) 60 \<le> real (length (trim (chunkText (chunk r))))) \<and>
           0 < maxPerFile args"
  proof -
    from c obtain r0 where r0: "r0 \<in> set pool"
      "min (minChars args) 60 \<le> real (length (trim (chunkText (chunk r0))))" by blast
    then have "\<not> isLowSignalChunk r0 (relaxedOpts args pp)"
      using low low_relaxed_iff [of r0 pp args] by auto
    with r0 have ex: "\<exists>r\<in>set pool. \<not> isLowSignalChunk r (relaxedOpts args pp)"
      by blast
    have mp: "0 < maxPerFile (relaxedOpts args pp)" using c by (simp add: relaxedOpts_def)
    have s2: "?s2 \<noteq> []" unfolding selectForContext_def
      using ex mp by (rule selectLoop_first)
    have a2: "?a2 \<noteq> []" unfolding assembleContextFromCandidates_def
      using ex mp by (rule assembleLoop_first)
    have sub1: "set ?s2 \<subseteq> {r \<in> set pool. \<not> isLowSignalChunk r (relaxedOpts args pp)}"
      unfolding selectForContext_def
      using selectLoop_subset [of "relaxedOpts args pp" pool Map.empty "{}" "[]"] by simp
    have sub2: "set ?a2 \<subseteq> {r \<in> set pool. \<not> isLowSignalChunk r (relaxedOpts args pp)}"
      unfolding assembleContextFromCandidates_def
      using assembleLoop_subset [of "relaxedOpts args pp" pool Map.empty "{}" "[]"] by simp
    have long: "min (minChars args) 60 \<le> real (length (trim (chunkText (chunk r))))"
      if "r \<in> set pool" "\<not> isLowSignalChunk r (relaxedOpts args pp)" for r
      using that low low_relaxed_iff [of r pp args] by auto
    show ?thesis
      using sf af s2 a2 sub1 sub2 long by auto
  qed
  show ?thesis using n1 n2 rest other by blast
qed

theorem fallback_ladder_nonempty_witness:
  "selectedFinal evalDefaults []
     [mkChunk ''c1'' ''docs/a.md'' (Some ''Intro'') (js ''short''),
      mkChunk ''c2'' ''docs/b.md'' None (js ''  tiny  '')]
   = [mkChunk ''c1'' ''docs/a.md'' (Some ''Intro'') (js ''short''),
      mkChunk ''c2'' ''docs/b.md'' None (js ''  tiny  '')] \<and>
   assembled evalDefaults []
     [mkChunk ''c1'' ''docs/a.md'' (Some ''Intro'') (js ''short''),
      mkChunk ''c2'' ''docs/b.md'' None (js ''  tiny  '')]
   = [mkChunk ''c1'' ''docs/a.md'' (Some ''Intro'') (js ''short''),
      mkChunk ''c2'' ''docs/b.md'' None (js ''  tiny  '')] \<and>
   selectedFinal evalDefaults []
     [mkChunk ''c1'' ''docs/a.md'' (Some ''Intro'') (js ''short''),
      mkChunk ''c2'' ''docs/b.md'' None (replicate 70 0x78)]
   = selectForContext
     [mkChunk ''c1'' ''docs/a.md'' (Some ''Intro'') (js ''short''),
      mkChunk ''c2'' ''docs/b.md'' None (replicate 70 0x78)] (relaxedOpts evalDefaults [])"
  using fallback_ladder_nonempty [of
     "[mkChunk ''c1'' ''docs/a.md'' (Some ''Intro'') (js ''short''),
       mkChunk ''c2'' ''docs/b.md'' None (js ''  tiny  '')]" evalDefaults "[]"]
    fallback_ladder_nonempty [of
     "[mkChunk ''c1'' ''docs/a.md'' (Some ''Intro'') (js ''short''),
       mkChunk ''c2'' ''docs/b.md'' None (replicate 70 0x78)]" evalDefaults "[]"]
  by (simp add: mkChunk_def js_def trim_def trimEnd_def trimStart_def isWhiteSpace_def
        isPrioritySource_def evalDefaults_def)


section \<open>Router precedence\<close>

text \<open>
  A keyword is matched case-insensitively: a query that contains a lower-case keyword
  as it stands still contains it after lowering.
\<close>

lemma startsWith_iff: "startsWith s w \<longleftrightarrow> (\<exists>r. s = w @ r)"
  by (induction s w rule: startsWith.induct) auto

lemma jsIncludes_iff: "jsIncludes s w \<longleftrightarrow> (\<exists>p r. s = p @ w @ r)"
proof (induction s)
  case Nil
  then show ?case by auto
next
  case (Cons c cs)
  show ?case
  proof
    assume "jsIncludes (c # cs) w"
    then consider "startsWith (c # cs) w" | "jsIncludes cs w" by auto
    then show "\<exists>p r. c # cs = p @ w @ r"
    proof cases
      case 1
      then obtain r where "c # cs = w @ r" by (auto simp: startsWith_iff)
      then have "c # cs = [] @ w @ r" by simp
      then show ?thesis by blast
    next
      case 2
      then obtain p r where "cs = p @ w @ r" using Cons.IH by blast
      then have "c # cs = (c # p) @ w @ r" by simp
      then show ?thesis by blast
    qed
  next
    assume "\<exists>p r. c # cs = p @ w @ r"
    then obtain p r where e: "c # cs = p @ w @ r" by blast
    show "jsIncludes (c # cs) w"
    proof (cases p)
      case Nil
      with e have "startsWith (c # cs) w" by (auto simp: startsWith_iff)
      then show ?thesis by simp
    next
      case (Cons x xs)
      with e have "cs = xs @ w @ r" by simp
      then have "jsIncludes cs w" using Cons.IH by blast
      then show ?thesis by simp
    qed
  qed
qed

lemma jsIncludes_toLowerCase:
  "jsIncludes s w \<Longrightarrow> jsIncludes (toLowerCase s) (toLowerCase w)"
  unfolding jsIncludes_iff toLowerCase_def
  by (metis concat_append map_append)

lemma literal_keyword_matches:
  "jsIncludes query w \<Longrightarrow> toLowerCase w = w \<Longrightarrow> w \<in> set ws \<Longrightarrow> hasAny (toLowerCase query) ws"
  unfolding hasAny_def list_ex_iff
  using jsIncludes_toLowerCase [of query w] by auto

lemma migration_keyword_matches:
  "jsIncludes query (js ''migration'') \<Longrightarrow>
   matches_eval query Migrations \<and> matches_ask query Migrations"
  unfolding matches_eval_def matches_ask_def
  using literal_keyword_matches [of query "js ''migration''" evalMigrationsWords]
        literal_keyword_matches [of query "js ''migration''" askMigrationsWords]
  by (simp add: str_simps evalMigrationsWords_def askMigrationsWords_def)

text \<open>Lowering can also produce a keyword: \<open>OPENAP\<close> followed by U+0130 lowers to \<open>openapi\<close> and U+0307.\<close>

lemma dotted_capital_i_is_lowered:
  "toLowerCase [0x4F, 0x50, 0x45, 0x4E, 0x41, 0x50, 0x130] = js ''openapi'' @ [0x307]"
  by (simp add: str_simps)

text \<open>
  C6, as stated, at the query \<open>Run vitest after the database migration\<close>: the lowered
  query contains the migrations keyword \<open>migration\<close> and the db keyword \<open>database\<close>,
  and both routers return the intent tests, since it also contains the tests keyword
  \<open>vitest\<close> and tests comes first in the order.
\<close>

theorem tests_keyword_outranks_migrations:
  "jsIncludes (toLowerCase (js ''Run vitest after the database migration'')) (js ''migration'') \<and>
   jsIncludes (toLowerCase (js ''Run vitest after the database migration'')) (js ''database'') \<and>
   intent (inferRoutePlan_eval (js ''Run vitest after the database migration'')) = Tests \<and>
   intent (inferRoutePlan_ask (js ''Run vitest after the database migration'')) = Tests"
  by (simp add: inferRoutePlan_eval_def inferRoutePlan_ask_def str_simps evalTestsWords_def
        askTestsWords_def Let_def)

text \<open>
  C6, amended: both routers return the first intent, in the order tests, migrations,
  openapi, auth, db, general, whose keywords the lowered query contains; in particular
  a query that contains a migrations keyword and a db keyword, and no tests keyword, is
  routed to migrations.
\<close>

theorem route_precedence:
  "List.find (matches_eval query) precedence = Some (intent (inferRoutePlan_eval query)) \<and>
   List.find (matches_ask query) precedence = Some (intent (inferRoutePlan_ask query)) \<and>
   (matches_eval query Migrations \<and> matches_eval query Db \<and> \<not> matches_eval query Tests \<longrightarrow>
      intent (inferRoutePlan_eval query) = Migrations) \<and>
   (matches_ask query Migrations \<and> matches_ask query Db \<and> \<not> matches_ask query Tests \<longrightarrow>
      intent (inferRoutePlan_ask query) = Migrations)"
  by (simp add: precedence_def matches_eval_def matches_ask_def inferRoutePlan_eval_def
        inferRoutePlan_ask_def Let_def)

theorem route_precedence_witness:
  "intent (inferRoutePlan_eval (js ''How are database migrations handled?'')) = Migrations \<and>
   intent (inferRoutePlan_ask (js ''How are database migrations handled?'')) = Migrations"
  using route_precedence [of "js ''How are database migrations handled?''"]
  by (simp add: matches_eval_def matches_ask_def str_simps evalTestsWords_def
        evalMigrationsWords_def evalDbWords_def askTestsWords_def askMigrationsWords_def
        askDbWords_def)


section \<open>The evaluator\<close>

lemma hitAtK_iff:
  "hitAtK s m k \<longleftrightarrow> (\<exists>needle\<in>set m. \<exists>x\<in>set (slice0 s k). sourceMatchesNeedle x needle)"
  by (simp add: hitAtK_def list_ex_iff)

text \<open>
  C8: for fixed selected sources and needles, a hit within the first \<open>k\<close> sources is a
  hit within the first \<open>k'\<close> for every \<open>k' \<ge> k\<close>. The cut-off \<open>k\<close> is a count, so
  \<open>k \<ge> 0\<close> (a negative \<open>k\<close> would make \<open>slice\<close> count from the end of the list);
  the evaluator calls \<open>hitAtK\<close> with 1, 3, 5 and 8 only.
\<close>

theorem hitAtK_mono:
  assumes "0 \<le> k" and "k \<le> k'" and "hitAtK s m k"
  shows "hitAtK s m k'"
proof -
  have "set (slice0 s k) \<subseteq> set (slice0 s k')"
    using assms(1,2) by (simp add: slice0_take set_take_subset_set_take)
  with assms(3) show ?thesis unfolding hitAtK_iff by blast
qed

theorem hitAtK_mono_witness:
  "hitAtK [js ''README.md#Install'', js ''docs/a.md''] [js ''README.md''] 1 \<and>
   hitAtK [js ''README.md#Install'', js ''docs/a.md''] [js ''README.md''] 3"
proof -
  have h: "hitAtK [js ''README.md#Install'', js ''docs/a.md''] [js ''README.md''] 1"
    by (simp add: hitAtK_def slice0_def sourceMatchesNeedle_def toPathOnly_def js_def Let_def)
  from hitAtK_mono [OF _ _ h, of 3] h show ?thesis by simp
qed

text \<open>
  For a single text \<open>embed\<close> returns one vector or throws: it never returns the empty
  list, so the branch of the loop that skips a case without a vector is not taken, and
  a failing embedding request ends the loop with the error.
\<close>

lemma embed_single:
  "embed f [t] = (case f t of Inl e \<Rightarrow> Inl e | Inr v \<Rightarrow> Inr [v])"
  by (simp add: embed_def split: sum.splits)

lemma evalLoop_embed_error:
  "ollamaEmbedOne (q c) = Inl e \<Longrightarrow> evalLoop ollamaEmbedOne search args (c # cs) st = Inl e"
  by (simp add: embed_single)

lemma evalLoop_failing_case:
  "c \<in> set cases \<Longrightarrow> ollamaEmbedOne (q c) = Inl e \<Longrightarrow>
   evalLoop ollamaEmbedOne search args cases st \<noteq> Inr st'"
proof (induction cases arbitrary: st)
  case Nil
  then show ?case by simp
next
  case (Cons x xs)
  show ?case
  proof (cases "ollamaEmbedOne (q x)")
    case (Inl e')
    show ?thesis
      using evalLoop_embed_error [of ollamaEmbedOne x e' search args xs st] Inl by simp
  next
    case (Inr v)
    with Cons.prems have "c \<in> set xs" by auto
    then have "evalLoop ollamaEmbedOne search args xs s \<noteq> Inr st'" for s
      using Cons.prems(2) by (rule Cons.IH)
    with Inr show ?thesis
      by (simp add: embed_single Let_def split: prod.splits)
  qed
qed

lemma failing_case_never_reported:
  "c \<in> set cases \<Longrightarrow> ollamaEmbedOne (q c) = Inl e \<Longrightarrow>
   evalMain ollamaEmbedOne search args cases \<noteq> Inr rep"
  using evalLoop_failing_case [of c cases ollamaEmbedOne e search args]
  by (auto simp: evalMain_def split: sum.splits)

text \<open>
  C4: an embedding failure for one case does not abort the batch. Two cases, the
  embedding service failing for the query of the first and answering for the second:
  the run ends with the error of the first case. Nothing is reported and the second
  case is not processed. In general, by the lemma above, a run over cases of which one
  fails to embed never produces a report.
\<close>

theorem embedding_failure_aborts_run:
  "failingEmbedder (q case1) = Inl (OllamaError (js ''503 Service Unavailable'')) \<and>
   failingEmbedder (q case2) = Inr [1, 0] \<and>
   evalMain failingEmbedder emptyStore evalDefaults [case1, case2]
     = Inl (OllamaError (js ''503 Service Unavailable''))"
  by (simp add: evalMain_def embed_single failingEmbedder_def case1_def case2_def js_def Let_def)

text \<open>One iteration for a case whose embedding succeeds.\<close>

lemma evalLoop_step:
  "ollamaEmbedOne (q c) = Inr v \<Longrightarrow>
   evalLoop ollamaEmbedOne search args (c # cs) st =
   evalLoop ollamaEmbedOne search args cs
     (st\<lparr>total := total st + 1,
          hits := countHits (caseSources ollamaEmbedOne search args c) (mustContain c) (ks args)
                    (hits st),
          events := events st @ [caseLine ollamaEmbedOne search args (total st + 1) c]\<rparr>)"
  by (simp add: embed_single caseSources_def caseVector_def caseLine_def Let_def
        split: prod.splits)

lemma evalLoop_run:
  "evalLoop emb search args cs st = Inr st' \<Longrightarrow>
   total st' = total st + length cs \<and>
   events st' = events st @
     map (\<lambda>(n, c). caseLine emb search args n c)
         (enumerate (Suc (total st)) cs) \<and>
   hits st' = foldl (\<lambda>h c. countHits (caseSources emb search args c) (mustContain c) (ks args) h)
                (hits st) cs"
proof (induction cs arbitrary: st)
  case Nil
  then show ?case by simp
next
  case (Cons c cs)
  show ?case
  proof (cases "emb (q c)")
    case (Inl e)
    then have "evalLoop emb search args (c # cs) st = Inl e"
      using evalLoop_embed_error [of emb c e search args cs st] by simp
    with Cons.prems show ?thesis by simp
  next
    case (Inr v)
    let ?st1 = "st\<lparr>total := total st + 1,
          hits := countHits (caseSources emb search args c) (mustContain c) (ks args) (hits st),
          events := events st @ [caseLine emb search args (total st + 1) c]\<rparr>"
    have "evalLoop emb search args cs ?st1 = Inr st'"
      using Cons.prems evalLoop_step [of emb c v search args cs st] Inr by simp
    then have ih: "total st' = total ?st1 + length cs \<and>
       events st' = events ?st1 @
         map (\<lambda>(n, c). caseLine emb search args n c)
             (enumerate (Suc (total ?st1)) cs) \<and>
       hits st' = foldl (\<lambda>h c. countHits (caseSources emb search args c) (mustContain c) (ks args) h)
                    (hits ?st1) cs"
      by (rule Cons.IH)
    show ?thesis using ih by simp
  qed
qed

text \<open>The counter of \<open>k\<close> goes up by one exactly when the case is a hit at \<open>k\<close>.\<close>

lemma countHits_value:
  "distinct kl \<Longrightarrow>
   hitCount (countHits s m kl h) k =
   hitCount h k + (if k \<in> set kl \<and> hitAtK s m k then 1 else 0)"
proof (induction kl arbitrary: h)
  case Nil
  then show ?case by (simp add: countHits_def)
next
  case (Cons x xs)
  have unf: "countHits s m (x # xs) h =
             countHits s m xs (if hitAtK s m x
                               then h(x \<mapsto> (case h x of None \<Rightarrow> 0 | Some n \<Rightarrow> n) + 1) else h)"
    by (simp add: countHits_def)
  from Cons.prems have d: "distinct xs" and nx: "x \<notin> set xs" by simp_all
  show ?case
    unfolding unf using Cons.IH [OF d] nx by (auto simp: hitCount_def)
qed

lemma hits_after_cases:
  "distinct kl \<Longrightarrow> k \<in> set kl \<Longrightarrow>
   hitCount (foldl (\<lambda>h c. countHits (src c) (mustContain c) kl h) h cs) k =
   hitCount h k + length (filter (\<lambda>c. hitAtK (src c) (mustContain c) k) cs)"
proof (induction cs arbitrary: h)
  case Nil
  then show ?case by simp
next
  case (Cons c cs)
  show ?case
    using Cons.IH [OF Cons.prems, of "countHits (src c) (mustContain c) kl h"]
          countHits_value [OF Cons.prems(1), of "src c" "mustContain c" h k] Cons.prems(2)
    by simp
qed

lemma distinct_ks: "distinct (ks args)"
  by (simp add: ks_def)

lemma initial_hits: "hitCount (map_of (map (\<lambda>k. (k, 0)) kl)) k = 0"
  by (induction kl) (auto simp: hitCount_def)

lemmas run_simps = evalMain_def embed_single failingEmbedder_def emptyStore_def case1_def case2_def
  retrieveWithRouting_def inferRoutePlan_eval_def hasAny_def evalTestsWords_def evalDbWords_def
  authWords_def openApiWords_def evalMigrationsWords_def ks_def countHits_def hitAtK_def labelOf_def
  normalizeSource_def

lemma run_with_maxChunks_2:
  "evalMain failingEmbedder emptyStore (evalDefaults\<lparr>maxChunks := 2\<rparr>) [case2]
   = Inr \<lparr>reportEvents = [CaseLine (CaseNumber 1) 3 False (js ''(none)'') (js ''q2'')],
          results = [(1, 0, 1)]\<rparr>"
  by (simp add: run_simps eval_simps toIntegerOrInfinity_def)

text \<open>
  C9, as stated, at \<open>maxChunks = 2\<close> and one case: the results hold hit\<open>@\<close>1 only, yet
  the line logged for the case reports hit\<open>@\<close>3, and 3 is larger than \<open>maxChunks\<close>.
\<close>

theorem hit3_logged_beyond_maxChunks:
  "evalMain failingEmbedder emptyStore (evalDefaults\<lparr>maxChunks := 2\<rparr>) [case2]
   = Inr \<lparr>reportEvents = [CaseLine (CaseNumber 1) 3 False (js ''(none)'') (js ''q2'')],
          results = [(1, 0, 1)]\<rparr> \<and>
   \<not> 3 \<le> maxChunks (evalDefaults\<lparr>maxChunks := 2\<rparr>)"
  by (simp add: run_with_maxChunks_2)

text \<open>
  C9, amended: a run that completes reports, in its results, exactly the \<open>k\<close> of
  1, 3, 5, 8 that are at most \<open>maxChunks\<close>, in that order, each with the number of
  cases whose selected sources hit at \<open>k\<close> and the number of cases; a larger \<open>k\<close> is
  dropped without notice. Apart from the results, and whatever \<open>maxChunks\<close> is, every
  case is logged with one line, in order and numbered from 1, that reports hit\<open>@\<close>3 of
  the sources selected for the case and the first of them.
\<close>

theorem eval_reports_only_ks:
  assumes "evalMain emb search args cases = Inr rep"
  shows "map fst (results rep) = filter (\<lambda>k. real_of_int k \<le> maxChunks args) [1, 3, 5, 8] \<and>
         results rep =
           map (\<lambda>k. (k, length (filter (\<lambda>c. hitAtK (caseSources emb search args c) (mustContain c) k)
                                  cases),
                     length cases))
               (filter (\<lambda>k. real_of_int k \<le> maxChunks args) [1, 3, 5, 8]) \<and>
         reportEvents rep =
           map (\<lambda>(n, c). caseLine emb search args n c) (enumerate 1 cases)"
proof -
  let ?st0 = "\<lparr>total = 0, hits = map_of (map (\<lambda>k. (k, 0)) (ks args)), events = []\<rparr>"
  from assms obtain st where
    run: "evalLoop emb search args cases ?st0 = Inr st"
    and rep: "rep = \<lparr>reportEvents = events st,
                     results = map (\<lambda>k. (k, (case hits st k of None \<Rightarrow> 0 | Some n \<Rightarrow> n), total st))
                                   (ks args)\<rparr>"
    by (auto simp: evalMain_def split: if_splits sum.splits)
  note r = evalLoop_run [OF run]
  have tot: "total st = length cases" using r by simp
  have ev: "events st = map (\<lambda>(n, c). caseLine emb search args n c)
                            (enumerate 1 cases)"
    using r by simp
  have hc: "(case hits st k of None \<Rightarrow> 0 | Some n \<Rightarrow> n) =
            length (filter (\<lambda>c. hitAtK (caseSources emb search args c) (mustContain c) k) cases)"
    if "k \<in> set (ks args)" for k
  proof -
    have "hitCount (hits st) k =
          hitCount (map_of (map (\<lambda>k. (k, 0)) (ks args))) k +
          length (filter (\<lambda>c. hitAtK (caseSources emb search args c) (mustContain c) k) cases)"
      using r hits_after_cases [OF distinct_ks that, of "caseSources emb search args"
                                  "map_of (map (\<lambda>k. (k, 0)) (ks args))" cases]
      by simp
    then show ?thesis by (simp add: initial_hits) (simp add: hitCount_def)
  qed
  have res: "results rep =
           map (\<lambda>k. (k, length (filter (\<lambda>c. hitAtK (caseSources emb search args c) (mustContain c) k)
                                  cases),
                     length cases))
               (ks args)"
    using hc by (simp add: rep tot)
  have "map fst (results rep) = ks args"
    by (simp add: rep comp_def)
  then show ?thesis using res ev by (simp add: rep ks_def)
qed

theorem eval_reports_only_ks_witness:
  "map fst (results \<lparr>reportEvents = [CaseLine (CaseNumber 1) 3 False (js ''(none)'') (js ''q2'')],
                     results = [(1::int, 0::nat, 1::nat)]\<rparr>)
   = filter (\<lambda>k. real_of_int k \<le> maxChunks (evalDefaults\<lparr>maxChunks := 2\<rparr>)) [1, 3, 5, 8] \<and>
   [CaseLine (CaseNumber 1) 3 False (js ''(none)'') (js ''q2'')]
   = map (\<lambda>(n, c). caseLine failingEmbedder emptyStore (evalDefaults\<lparr>maxChunks := 2\<rparr>) n c)
         (enumerate 1 [case2])"
  using eval_reports_only_ks [OF run_with_maxChunks_2]
  by simp


section \<open>Cosine similarity\<close>

lemma fmul_commute: "fmul a b = fmul b a"
  by (cases a; cases b) (auto simp: fmul_def mult.commute)

lemma cosine_eq: "cosine a b = cosineSimilarity a b"
  by (simp add: cosine_def cosineSimilarity_def)

text \<open>Swapping the vectors swaps the two squared norms and keeps the dot product.\<close>

lemma cosineLoop_swap:
  "cosineLoop b a (dot, nb, na) =
   (case cosineLoop a b (dot, na, nb) of (d, x, y) \<Rightarrow> (d, y, x))"
proof (induction a b "(dot, na, nb)" arbitrary: dot na nb rule: cosineLoop.induct)
  case (1 av as bv bs dot na nb)
  then show ?case by (simp add: fmul_commute [of bv av])
next
  case (2 bs)
  then show ?case by (cases bs) simp_all
next
  case (3 as)
  then show ?case by (cases as) simp_all
qed

lemma round64_zero: "round64 0 = Finite 0"
  by (simp add: round64_def)

text \<open>Over a vector of zeros the squared norm stays 0.\<close>

lemma cosineLoop_zero_norm:
  "\<forall>x\<in>set a. x = Finite 0 \<Longrightarrow>
   fst (snd (cosineLoop a b (dot, Finite 0, nb))) = Finite 0"
proof (induction a b "(dot, Finite 0, nb)" arbitrary: dot nb rule: cosineLoop.induct)
  case (1 av as bv bs dot nb)
  then have av: "av = Finite 0" by simp
  have "fadd (Finite 0) (fmul av av) = Finite 0"
    by (simp add: av fadd_def fmul_def round64_zero)
  with 1 show ?case by simp
next
  case (2 bs)
  then show ?case by simp
next
  case (3 as)
  then show ?case by (cases as) simp_all
qed

text \<open>The integer square root is the floor of the square root.\<close>

lemma isqrt_spec:
  "0 \<le> n \<Longrightarrow> 0 \<le> isqrt n \<and> isqrt n * isqrt n \<le> n \<and> n < (isqrt n + 1) * (isqrt n + 1)"
proof (induction n rule: isqrt.induct)
  case (1 n)
  show ?case
  proof (cases "n \<le> 0")
    case True
    with 1 have "n = 0" by simp
    then show ?thesis by (subst (1 2 3 4 5) isqrt.simps) simp
  next
    case False
    define r where "r = isqrt (n div 4)"
    have ih: "0 \<le> r \<and> r * r \<le> n div 4 \<and> n div 4 < (r + 1) * (r + 1)"
      unfolding r_def using 1 False by simp
    have lo: "4 * (r * r) \<le> n" using ih by linarith
    have "n div 4 + 1 \<le> (r + 1) * (r + 1)" using ih by linarith
    then have hi: "n < 4 * ((r + 1) * (r + 1))" by linarith
    have unf: "isqrt n = (if (2 * r + 1) * (2 * r + 1) \<le> n then 2 * r + 1 else 2 * r)"
      using False by (subst isqrt.simps) (simp add: r_def Let_def)
    show ?thesis
    proof (cases "(2 * r + 1) * (2 * r + 1) \<le> n")
      case True
      then have v: "isqrt n = 2 * r + 1" using unf by simp
      have "(2 * r + 1 + 1) * (2 * r + 1 + 1) = 4 * ((r + 1) * (r + 1))"
        by (simp add: algebra_simps)
      with hi True ih show ?thesis unfolding v by simp
    next
      case F: False
      then have v: "isqrt n = 2 * r" using unf by simp
      have "2 * r * (2 * r) = 4 * (r * r)" by simp
      with lo F ih show ?thesis unfolding v by simp
    qed
  qed
qed

text \<open>
  The arithmetic on familiar values: the doubles nearest to 0.1, 0.2 and 0.3, and the
  sum of the first two, which is the double above the third (printed
  \<open>0.30000000000000004\<close>).
\<close>

lemma tenth: "round64 (1 / 10) = Finite (3602879701896397 / 36028797018963968)"
  by code_simp

lemma fifth: "round64 (2 / 10) = Finite (3602879701896397 / 18014398509481984)"
  by code_simp

lemma tenth_plus_fifth:
  "fadd (Finite (3602879701896397 / 36028797018963968)) (Finite (3602879701896397 / 18014398509481984))
   = Finite (1351079888211149 / 4503599627370496)"
  by code_simp

lemma three_tenths: "round64 (3 / 10) = Finite (5404319552844595 / 18014398509481984)"
  by code_simp

text \<open>
  The similarity of the vector \<open>(1, 1, 1)\<close> with itself, operation by operation: the
  squared norm is 3, the square root of 3 rounds down, its square rounds to the double
  just below 3, and 3 divided by it rounds to the double just above 1.
\<close>

lemma add01: "fadd (Finite 0) (Finite 1) = Finite 1"
  by code_simp
lemma add11: "fadd (Finite 1) (Finite 1) = Finite 2"
  by code_simp
lemma add21: "fadd (Finite 2) (Finite 1) = Finite 3"
  by code_simp
lemma mul11: "fmul (Finite 1) (Finite 1) = Finite 1"
  by code_simp
lemma sqrt3: "fsqrt (Finite 3) = Finite (3900231685776981 / 2251799813685248)"
  by code_simp
lemma sqrt3_squared:
  "fmul (Finite (3900231685776981 / 2251799813685248))
        (Finite (3900231685776981 / 2251799813685248))
   = Finite (6755399441055743 / 2251799813685248)"
  by code_simp
lemma quotient3:
  "fdiv (Finite 3) (Finite (6755399441055743 / 2251799813685248)) = Finite (1 + 1 / 2 ^ 52)"
  by code_simp

lemma cosine_ones:
  "cosineSimilarity [Finite 1, Finite 1, Finite 1] [Finite 1, Finite 1, Finite 1]
   = Finite (1 + 1 / 2 ^ 52)"
  by (simp add: cosineSimilarity_def add01 add11 add21 mul11 sqrt3 sqrt3_squared quotient3)

text \<open>
  C7, as stated, at \<open>a = b = (1, 1, 1)\<close>: both functions return
  \<open>1 + 2\<^sup>-\<^sup>5\<^sup>2\<close>, printed \<open>1.0000000000000002\<close>, which lies outside \<open>[-1, 1]\<close>.
\<close>

theorem cosine_exceeds_one:
  "cosineSimilarity [Finite 1, Finite 1, Finite 1] [Finite 1, Finite 1, Finite 1]
   = Finite (1 + 1 / 2 ^ 52) \<and>
   cosine [Finite 1, Finite 1, Finite 1] [Finite 1, Finite 1, Finite 1]
   = Finite (1 + 1 / 2 ^ 52) \<and>
   (1::rat) < 1 + 1 / 2 ^ 52"
  by (simp add: cosine_eq cosine_ones)

text \<open>
  C7, amended: for every pair of vectors the similarity of \<open>a\<close> and \<open>b\<close> is the same
  value as that of \<open>b\<close> and \<open>a\<close> (NaN in both orders when it is NaN), and it is
  exactly 0 whenever one of the vectors holds only zeros. The result is the rounded
  quotient of rounded quantities: nothing keeps it within \<open>[-1, 1]\<close>.
\<close>

theorem cosine_symmetric_and_zero:
  "cosineSimilarity a b = cosineSimilarity b a \<and> cosine a b = cosine b a \<and>
   ((\<forall>x\<in>set a. x = Finite 0) \<longrightarrow>
      cosineSimilarity a b = Finite 0 \<and> cosineSimilarity b a = Finite 0 \<and>
      cosine a b = Finite 0 \<and> cosine b a = Finite 0)"
proof -
  have sym: "cosineSimilarity x y = cosineSimilarity y x" for x y
    unfolding cosineSimilarity_def
    by (auto simp: cosineLoop_swap [of y x] fmul_commute split: prod.splits)
  have zero: "cosineSimilarity a b = Finite 0" if "\<forall>x\<in>set a. x = Finite 0"
    using cosineLoop_zero_norm [OF that, of b "Finite 0" "Finite 0"]
    by (auto simp: cosineSimilarity_def split: prod.splits)
  show ?thesis using sym zero by (auto simp: cosine_eq)
qed

theorem cosine_symmetric_and_zero_witness:
  "cosineSimilarity [Finite 0, Finite 0] [Finite 1, Finite 1] = Finite 0 \<and>
   cosineSimilarity [Finite 1, Finite 1] [Finite 0, Finite 0] = Finite 0"
  using cosine_symmetric_and_zero [of "[Finite 0, Finite 0]" "[Finite 1, Finite 1]"]
  by simp


end
